theory Spec2Isabelle
  imports Complex_Main "HOL-Library.Sublist" "HOL-Library.Multiset"
begin

section \<open>JavaScript strings\<close>

text \<open>
  A JavaScript string is a sequence of UTF-16 code units; \<open>length\<close>, \<open>substring\<close>,
  \<open>split\<close> and the regular expressions of the scripts (none has the \<open>u\<close> flag) all
  count and compare code units. A string is therefore a list of code units, each a
  natural number below 65536. ASCII literals are written with \<open>asc\<close>; Chinese literals
  are written as their code units.
\<close>

type_synonym jsstring = "nat list"

definition asc :: "string \<Rightarrow> jsstring" where
  "asc s = map of_char s"

text \<open>
  White space and line terminators of ECMAScript: what \<open>String.prototype.trim\<close>
  strips and what \<open>\s\<close> matches.
\<close>

definition js_ws :: "nat \<Rightarrow> bool" where
  "js_ws c = (c = 9 \<or> c = 10 \<or> c = 11 \<or> c = 12 \<or> c = 13 \<or> c = 32 \<or> c = 160
     \<or> c = 5760 \<or> (8192 \<le> c \<and> c \<le> 8202) \<or> c = 8232 \<or> c = 8233 \<or> c = 8239
     \<or> c = 8287 \<or> c = 12288 \<or> c = 65279)"

text \<open>The line terminators: what \<open>.\<close> does not match, and where \<open>^\<close> and \<open>$\<close> match
  under the \<open>m\<close> flag.\<close>

definition js_lt :: "nat \<Rightarrow> bool" where
  "js_lt c = (c = 10 \<or> c = 13 \<or> c = 8232 \<or> c = 8233)"

definition trim :: "jsstring \<Rightarrow> jsstring" where
  "trim s = rev (dropWhile js_ws (rev (dropWhile js_ws s)))"

text \<open>\<open>s.includes(t)\<close>: \<open>t\<close> occurs in \<open>s\<close> as a contiguous run.\<close>

fun js_includes :: "jsstring \<Rightarrow> jsstring \<Rightarrow> bool" where
  "js_includes [] t = (t = [])"
| "js_includes (x # xs) t = (prefix t (x # xs) \<or> js_includes xs t)"

text \<open>\<open>s.startsWith(t)\<close>.\<close>

definition startsWith :: "jsstring \<Rightarrow> jsstring \<Rightarrow> bool" where
  "startsWith s t = prefix t s"

text \<open>\<open>s.split(c)\<close> for a one-unit separator: never empty, \<open>''.split(c) = ['']\<close>.\<close>

fun js_split :: "nat \<Rightarrow> jsstring \<Rightarrow> jsstring list" where
  "js_split c [] = [[]]"
| "js_split c (x # xs) =
     (if x = c then [] # js_split c xs
      else (case js_split c xs of [] \<Rightarrow> [[x]] | w # ws \<Rightarrow> (x # w) # ws))"


text \<open>\<open>s.substring(0, n)\<close> for a non-negative \<open>n\<close>: the end is clamped to the length.\<close>

definition substring0 :: "nat \<Rightarrow> jsstring \<Rightarrow> jsstring" where
  "substring0 n s = take n s"

section \<open>Regular expressions\<close>

text \<open>
  The scripts parse with regular expressions. They are embedded as syntax trees that
  follow the source pattern token by token, and run by a backtracking matcher that
  returns the states reachable by a pattern in the order in which the ECMAScript
  matcher tries them: the head of the list is the match that \<open>exec\<close> finds.

  A character class is a list of items, positive or negated. \<open>.\<close> is the negated class
  of the four line terminators, \<open>[\s\S]\<close> is the negated empty class.
\<close>

datatype citem = One nat | Range nat nat | Space | Digit

datatype cset = Pos "citem list" | Neg "citem list"

fun in_citem :: "nat \<Rightarrow> citem \<Rightarrow> bool" where
  "in_citem c (One d) = (c = d)"
| "in_citem c (Range lo hi) = (lo \<le> c \<and> c \<le> hi)"
| "in_citem c Space = js_ws c"
| "in_citem c Digit = (48 \<le> c \<and> c \<le> 57)"

fun in_cset :: "nat \<Rightarrow> cset \<Rightarrow> bool" where
  "in_cset c (Pos is) = list_ex (in_citem c) is"
| "in_cset c (Neg is) = (\<not> list_ex (in_citem c) is)"

definition Dot :: cset where
  "Dot = Neg [One 10, One 13, One 8232, One 8233]"

definition AnyUnit :: cset where
  "AnyUnit = Neg []"

text \<open>
  \<open>Rept g n r\<close> is \<open>r{n,}\<close> (so \<open>r*\<close> is \<open>Rept g 0 r\<close> and \<open>r+\<close> is \<open>Rept g 1 r\<close>) and
  \<open>Opt g r\<close> is \<open>r?\<close>; \<open>g\<close> is False for the lazy forms \<open>*?\<close>, \<open>+?\<close>. \<open>Grp k r\<close> is
  the \<open>k\<close>-th capturing group, \<open>Bol m\<close> and \<open>Eol m\<close> are \<open>^\<close> and \<open>$\<close> under the
  multiline flag \<open>m\<close>, \<open>Look r\<close> is the lookahead \<open>(?=r)\<close>.
\<close>

datatype rx =
    Cls cset
  | Lit jsstring
  | Seq rx rx
  | Alt rx rx
  | Rept bool nat rx
  | Opt bool rx
  | Grp nat rx
  | Bol bool
  | Eol bool
  | Look rx

text \<open>
  A matcher state: the captures so far (latest first), the code unit before the
  current position (None at the start of the input) and the rest of the input.
\<close>

type_synonym caps = "(nat \<times> jsstring) list"

type_synonym mstate = "caps \<times> nat option \<times> jsstring"

fun rest :: "mstate \<Rightarrow> jsstring" where
  "rest (cp, p, s) = s"

fun rx_size :: "rx \<Rightarrow> nat" where
  "rx_size (Cls c) = 1"
| "rx_size (Lit w) = 1"
| "rx_size (Seq a b) = Suc (rx_size a + rx_size b)"
| "rx_size (Alt a b) = Suc (rx_size a + rx_size b)"
| "rx_size (Rept g n r) = Suc (n + rx_size r)"
| "rx_size (Opt g r) = Suc (rx_size r)"
| "rx_size (Grp k r) = Suc (rx_size r)"
| "rx_size (Bol m) = 1"
| "rx_size (Eol m) = 1"
| "rx_size (Look r) = Suc (rx_size r)"

text \<open>
  As in ECMAScript, an iteration of \<open>*\<close> or \<open>?\<close> that consumes nothing is rejected
  once the minimum count is reached.
\<close>

function ms :: "rx \<Rightarrow> mstate \<Rightarrow> mstate list" where
  "ms (Cls c) (cp, p, s) =
     (case s of [] \<Rightarrow> [] | x # xs \<Rightarrow> if in_cset x c then [(cp, Some x, xs)] else [])"
| "ms (Lit w) (cp, p, s) =
     (if w = [] then [(cp, p, s)]
      else if prefix w s then [(cp, Some (last w), drop (length w) s)] else [])"
| "ms (Seq a b) st = concat (map (ms b) (ms a st))"
| "ms (Alt a b) st = ms a st @ ms b st"
| "ms (Rept g (Suc n) r) st = concat (map (ms (Rept g n r)) (ms r st))"
| "ms (Rept g 0 r) st =
     (let more = concat (map (\<lambda>st'. if length (rest st') < length (rest st)
                                       then ms (Rept g 0 r) st' else []) (ms r st))
      in if g then more @ [st] else st # more)"
| "ms (Opt g r) st =
     (let one = filter (\<lambda>st'. length (rest st') < length (rest st)) (ms r st)
      in if g then one @ [st] else st # one)"
| "ms (Grp k r) (cp, p, s) =
     map (\<lambda>(cp', p', s'). ((k, take (length s - length s') s) # cp', p', s'))
       (ms r (cp, p, s))"
| "ms (Bol m) (cp, p, s) =
     (case p of
        None \<Rightarrow> [(cp, p, s)]
      | Some c \<Rightarrow> if m \<and> js_lt c then [(cp, p, s)] else [])"
| "ms (Eol m) (cp, p, s) =
     (case s of
        [] \<Rightarrow> [(cp, p, s)]
      | x # xs \<Rightarrow> if m \<and> js_lt x then [(cp, p, s)] else [])"
| "ms (Look r) st = (if ms r st = [] then [] else [st])"
  by pat_completeness auto
termination
  by (relation "measures [\<lambda>(r, st). rx_size r, \<lambda>(r, st). length (rest st)]") auto

text \<open>
  A match: the text skipped before it, the matched text, its captures, the code unit
  before the position after the match, and the text after it.
\<close>

type_synonym rmatch = "jsstring \<times> jsstring \<times> caps \<times> nat option \<times> jsstring"

text \<open>
  \<open>search r p s\<close> is \<open>r.exec\<close> on the input whose unread part is \<open>s\<close> and whose last
  read unit is \<open>p\<close>: the leftmost position at which \<open>r\<close> matches, with the first match
  of the backtracking order there.
\<close>

fun search :: "rx \<Rightarrow> nat option \<Rightarrow> jsstring \<Rightarrow> rmatch option" where
  "search r p [] =
     (case ms r ([], p, []) of
        [] \<Rightarrow> None
      | (cp, p', s') # _ \<Rightarrow> Some ([], [], cp, p', s'))"
| "search r p (x # xs) =
     (case ms r ([], p, x # xs) of
        (cp, p', s') # _ \<Rightarrow> Some ([], take (length (x # xs) - length s') (x # xs), cp, p', s')
      | [] \<Rightarrow>
         (case search r (Some x) xs of
            None \<Rightarrow> None
          | Some (pre, w, cp, p', post) \<Rightarrow> Some (x # pre, w, cp, p', post)))"

text \<open>\<open>s.match(r)\<close> for a regular expression without the \<open>g\<close> flag, and \<open>r.test(s)\<close>.\<close>

definition js_match :: "rx \<Rightarrow> jsstring \<Rightarrow> rmatch option" where
  "js_match r s = search r None s"

definition js_test :: "rx \<Rightarrow> jsstring \<Rightarrow> bool" where
  "js_test r s = (search r None s \<noteq> None)"

text \<open>
  \<open>m[k]\<close>: the text of group \<open>k\<close>; a group that took no part in the match is
  \<open>undefined\<close> in JavaScript, here None.
\<close>

fun grp :: "rmatch \<Rightarrow> nat \<Rightarrow> jsstring option" where
  "grp (pre, w, cp, p, post) k = map_of cp k"

text \<open>\<open>s.replace(r, f)\<close> for \<open>r\<close> without the \<open>g\<close> flag: the first match only.\<close>

definition replace_first :: "rx \<Rightarrow> (rmatch \<Rightarrow> jsstring) \<Rightarrow> jsstring \<Rightarrow> jsstring" where
  "replace_first r f s =
     (case js_match r s of
        None \<Rightarrow> s
      | Some (pre, w, cp, p, post) \<Rightarrow> pre @ f (pre, w, cp, p, post) @ post)"

declare ms.simps(6) [simp del]

lemma ms_star_set:
  "set (ms (Rept g 0 r) st) =
     insert st (\<Union>m \<in> {m \<in> set (ms r st). length (rest m) < length (rest st)}.
                  set (ms (Rept g 0 r) m))"
  by (subst ms.simps(6)) (auto simp: Let_def split: if_splits)

lemma ms_suffix: "st' \<in> set (ms r st) \<Longrightarrow> suffix (rest st') (rest st)"
proof (induction r st arbitrary: st' rule: ms.induct)
  case (1 c cp p s)
  then show ?case by (auto split: list.splits if_splits simp: suffix_Cons)
next
  case (2 w cp p s)
  then show ?case by (auto split: if_splits simp: suffix_drop)
next
  case (3 a b st)
  from 3(3) obtain m where m: "m \<in> set (ms a st)" "st' \<in> set (ms b m)" by auto
  from 3(1)[OF m(1)] 3(2)[OF m(1) m(2)] show ?case by (rule suffix_order.trans[rotated])
next
  case (4 a b st)
  from 4(3) have "st' \<in> set (ms a st) \<or> st' \<in> set (ms b st)" by simp
  then show ?case
  proof
    assume "st' \<in> set (ms a st)"
    then show ?thesis by (rule 4(1))
  next
    assume "st' \<in> set (ms b st)"
    then show ?thesis by (rule 4(2))
  qed
next
  case (5 g n r st)
  from 5(3) obtain m where m: "m \<in> set (ms r st)" "st' \<in> set (ms (Rept g n r) m)" by auto
  from 5(1)[OF m(1)] 5(2)[OF m(1) m(2)] show ?case by (rule suffix_order.trans[rotated])
next
  case (6 g r st)
  show ?case
  proof (cases "st' = st")
    case True
    then show ?thesis by simp
  next
    case False
    with 6(3) obtain m where m: "m \<in> set (ms r st)" "length (rest m) < length (rest st)"
      "st' \<in> set (ms (Rept g 0 r) m)"
      unfolding ms_star_set[of g r st] by auto
    from 6(1)[OF m(1)] 6(2)[OF m(1) m(2) m(3)] show ?thesis
      by (rule suffix_order.trans[rotated])
  qed
next
  case (7 g r st)
  from 7(2) have "st' = st \<or> st' \<in> set (ms r st)"
    by (auto simp: Let_def split: if_splits)
  then show ?case
  proof
    assume "st' = st"
    then show ?thesis by simp
  next
    assume "st' \<in> set (ms r st)"
    then show ?thesis by (rule 7(1))
  qed
next
  case (8 k r cp p s)
  then show ?case by fastforce
next
  case (9 m cp p s)
  then show ?case by (auto split: if_splits option.splits)
next
  case (10 m cp p s)
  then show ?case by (auto split: if_splits list.splits)
next
  case (11 r st)
  then show ?case by (auto split: if_splits)
qed

lemma ms_hd_suffix: "ms r (cp, p, s) = (cp', p', s') # sts \<Longrightarrow> suffix s' s"
  using ms_suffix[of "(cp', p', s')" r "(cp, p, s)"] by simp

lemma search_decomp:
  "search r p s = Some (pre, w, cp, p', post) \<Longrightarrow> s = pre @ w @ post"
proof (induction s arbitrary: p pre)
  case Nil
  then show ?case
    by (auto split: list.splits dest: ms_hd_suffix)
next
  case (Cons x xs)
  show ?case
  proof (cases "ms r ([], p, x # xs)")
    case Nil
    with Cons show ?thesis by (auto split: option.splits)
  next
    case (Cons st sts)
    obtain a b c where st: "st = (a, b, c)" by (cases st)
    have sf: "suffix c (x # xs)" using Cons st by (auto dest: ms_hd_suffix)
    from Cons.prems Cons st have eq: "pre = []"
      "w = take (length (x # xs) - length c) (x # xs)" "post = c" by auto
    from sf obtain u where u: "x # xs = u @ c" by (auto simp: suffix_def)
    from eq(2) have "w = u" unfolding u by simp
    with eq(1,3) u show ?thesis by simp
  qed
qed

text \<open>
  \<open>s.replace(r, f)\<close> for \<open>r\<close> with the \<open>g\<close> flag: every match, left to right, each
  search starting where the previous match ended; after an empty match the next
  search starts one unit later.
\<close>

function replace_all :: "rx \<Rightarrow> (rmatch \<Rightarrow> jsstring) \<Rightarrow> nat option \<Rightarrow> jsstring \<Rightarrow> jsstring" where
  "replace_all r f p s =
     (case search r p s of
        None \<Rightarrow> s
      | Some (pre, w, cp, p', post) \<Rightarrow>
          pre @ f (pre, w, cp, p', post) @
          (if w = [] then (case post of [] \<Rightarrow> [] | x # xs \<Rightarrow> x # replace_all r f (Some x) xs)
           else replace_all r f p' post))"
  by pat_completeness auto
termination
proof (relation "measure (\<lambda>(r, f, p, s). length s)", goal_cases)
  case 1
  show ?case by simp
next
  case (2 r f p s m pre m1 w m2 cp m3 p' post x xs)
  then have "search r p s = Some (pre, w, cp, p', x # xs)" by simp
  from search_decomp[OF this] show ?case by simp
next
  case (3 r f p s m pre m1 w m2 cp m3 p' post)
  then have "search r p s = Some (pre, w, cp, p', post)" by simp
  from search_decomp[OF this] 3(6) show ?case by simp
qed

declare replace_all.simps [simp del]

text \<open>\<open>s.matchAll(r)\<close>: the matches that the global replacement visits.\<close>

function match_all :: "rx \<Rightarrow> nat option \<Rightarrow> jsstring \<Rightarrow> rmatch list" where
  "match_all r p s =
     (case search r p s of
        None \<Rightarrow> []
      | Some (pre, w, cp, p', post) \<Rightarrow>
          (pre, w, cp, p', post) #
          (if w = [] then (case post of [] \<Rightarrow> [] | x # xs \<Rightarrow> match_all r (Some x) xs)
           else match_all r p' post))"
  by pat_completeness auto
termination
proof (relation "measure (\<lambda>(r, p, s). length s)", goal_cases)
  case 1
  show ?case by simp
next
  case (2 r p s m pre m1 w m2 cp m3 p' post x xs)
  then have "search r p s = Some (pre, w, cp, p', x # xs)" by simp
  from search_decomp[OF this] show ?case by simp
next
  case (3 r p s m pre m1 w m2 cp m3 p' post)
  then have "search r p s = Some (pre, w, cp, p', post)" by simp
  from search_decomp[OF this] 3(6) show ?case by simp
qed

declare match_all.simps [simp del]

subsection \<open>Facts about the matcher\<close>

text \<open>Repetition counts written as numerals unfold like \<open>Suc\<close>.\<close>

lemma ms_rept_1 [simp]: "ms (Rept g 1 r) st = concat (map (ms (Rept g 0 r)) (ms r st))"
  unfolding One_nat_def by (rule ms.simps(5))

lemma ms_rept_numeral:
  "ms (Rept g (numeral k) r) st = concat (map (ms (Rept g (pred_numeral k) r)) (ms r st))"
  unfolding numeral_eq_Suc by (rule ms.simps(5))

lemma take_minus_dropWhile:
  "take (length xs - length (dropWhile P xs)) xs = takeWhile P xs"
proof -
  have "length xs = length (takeWhile P xs) + length (dropWhile P xs)"
    by (metis length_append takeWhile_dropWhile_id)
  then have "length xs - length (dropWhile P xs) = length (takeWhile P xs)" by simp
  then show ?thesis by (metis append_eq_conv_conj takeWhile_dropWhile_id)
qed

lemma take_Suc_minus_dropWhile:
  "take (Suc (length xs) - length (dropWhile P xs)) (x # xs) = x # takeWhile P xs"
proof -
  have "Suc (length xs) - length (dropWhile P xs) = Suc (length xs - length (dropWhile P xs))"
    by (simp add: Suc_diff_le length_dropWhile_le)
  then show ?thesis by (simp add: take_minus_dropWhile)
qed

lemma ms_star_greedy_cls:
  assumes f: "\<And>cp p x xs. in_cset x c \<Longrightarrow> f (cp, p, x # xs) = []"
  shows "concat (map f (ms (Rept True 0 (Cls c)) (cp, p, s))) =
           f (cp, (if takeWhile (\<lambda>x. in_cset x c) s = [] then p
                   else Some (last (takeWhile (\<lambda>x. in_cset x c) s))),
              dropWhile (\<lambda>x. in_cset x c) s)"
proof (induction s arbitrary: p)
  case Nil
  show ?case by (subst ms.simps(6)) simp
next
  case (Cons x xs)
  show ?case
  proof (cases "in_cset x c")
    case True
    have "ms (Rept True 0 (Cls c)) (cp, p, x # xs) =
            ms (Rept True 0 (Cls c)) (cp, Some x, xs) @ [(cp, p, x # xs)]"
      by (subst ms.simps(6)) (simp add: True)
    then show ?thesis using Cons[of "Some x"] True by (simp add: f)
  next
    case False
    have "ms (Rept True 0 (Cls c)) (cp, p, x # xs) = [(cp, p, x # xs)]"
      by (subst ms.simps(6)) (simp add: False)
    then show ?thesis using False by simp
  qed
qed

lemma search_bol_later: "search (Seq (Bol False) r) (Some y) s = None"
  by (induction s arbitrary: y) simp_all

lemma search_bol_start:
  "search (Seq (Bol False) r) None s =
     (case ms r ([], None, s) of
        [] \<Rightarrow> None
      | (cp, p', s') # _ \<Rightarrow> Some ([], take (length s - length s') s, cp, p', s'))"
proof (cases s)
  case Nil
  show ?thesis
  proof (cases "ms r ([], None, [])")
    case Nil
    then show ?thesis using \<open>s = []\<close> by simp
  next
    case (Cons st sts)
    obtain a b c where "st = (a, b, c)" by (cases st)
    with Cons \<open>s = []\<close> show ?thesis by (auto dest: ms_hd_suffix)
  qed
next
  case (Cons x xs)
  then show ?thesis by (simp add: search_bol_later split: list.splits)
qed

lemma ms_rept_greedy_cls:
  assumes f: "\<And>cp p x xs. in_cset x c \<Longrightarrow> f (cp, p, x # xs) = []"
  shows "concat (map f (ms (Rept True n (Cls c)) (cp, p, s))) =
           (if n \<le> length (takeWhile (\<lambda>x. in_cset x c) s)
            then f (cp, (if takeWhile (\<lambda>x. in_cset x c) s = [] then p
                         else Some (last (takeWhile (\<lambda>x. in_cset x c) s))),
                    dropWhile (\<lambda>x. in_cset x c) s)
            else [])"
proof (induction n arbitrary: p s)
  case 0
  show ?case using ms_star_greedy_cls[where f = f and c = c and cp = cp and p = p and s = s] f by simp
next
  case (Suc n)
  show ?case
  proof (cases s)
    case Nil
    then show ?thesis by simp
  next
    case (Cons x xs)
    show ?thesis
    proof (cases "in_cset x c")
      case True
      then show ?thesis using Cons Suc[of "Some x" xs] by simp
    next
      case False
      then show ?thesis using Cons by simp
    qed
  qed
qed





section \<open>Data of the extraction and analysis scripts\<close>

text \<open>
  A row of a message table as \<^verbatim>\<open>extract-from-db\<close> selects it:
  \<^verbatim>\<open>SELECT localId, createTime, type, content, isSend, talker, msgSvrId\<close>.
  A column that is NULL is None.
\<close>

record DbRow =
  localId :: int
  createTime :: int
  type :: int
  content :: "jsstring option"
  isSend :: "int option"
  talker :: jsstring
  msgSvrId :: int

text \<open>
  A row of the group table as \<^verbatim>\<open>extract-date\<close> reads it (\<^verbatim>\<open>SELECT *\<close>): the columns that
  the script uses.
\<close>

record MsgRow =
  local_id :: int
  create_time :: int
  local_type :: int
  message_content :: "jsstring option"
  origin_source :: "int option"
  source :: "jsstring option"

text \<open>A row of \<^verbatim>\<open>SELECT username, nick_name, remark FROM contact\<close>.\<close>

record Contact =
  username :: jsstring
  nick_name :: "jsstring option"
  remark :: "jsstring option"

text \<open>The interface \<open>ChatMessage\<close>; \<open>isSend\<close> is \<open>number | null\<close> and \<open>emojiMd5\<close> is optional.\<close>

record ChatMessage =
  localId :: int
  createTime :: int
  formattedTime :: jsstring
  type :: jsstring
  localType :: int
  content :: jsstring
  isSend :: "int option"
  senderUsername :: jsstring
  senderDisplayName :: jsstring
  source :: jsstring
  senderAvatarKey :: jsstring
  emojiMd5 :: "jsstring option"

text \<open>The message types named by the filter, as code units:
  U+7CFB U+7EDF U+6D88 U+606F (system message), U+64A4 U+56DE U+6D88 U+606F (recalled
  message), U+52A8 U+753B U+8868 U+60C5 (animated emoji); the full-width colon U+FF1A;
  the name of the bot, U+5C0F U+4E91 U+96C0.\<close>

definition T_SYSTEM :: jsstring where
  "T_SYSTEM = [0x7CFB, 0x7EDF, 0x6D88, 0x606F]"

definition T_RECALL :: jsstring where
  "T_RECALL = [0x64A4, 0x56DE, 0x6D88, 0x606F]"

definition T_EMOJI :: jsstring where
  "T_EMOJI = [0x52A8, 0x753B, 0x8868, 0x60C5]"

definition FW_COLON :: jsstring where
  "FW_COLON = [0xFF1A]"

definition BOT_NAME :: jsstring where
  "BOT_NAME = [0x5C0F, 0x4E91, 0x96C0]"

text \<open>The other message type names of the extractors: U+6587 U+672C U+6D88 U+606F (text),
  U+56FE U+7247 U+6D88 U+606F (image), U+8BED U+97F3 (voice), U+540D U+7247 (card),
  U+89C6 U+9891 (video), U+4F4D U+7F6E (location), U+5F15 U+7528 U+6D88 U+606F (quote),
  and U+672A U+77E5 (unknown).\<close>

definition T_TEXT :: jsstring where
  "T_TEXT = [0x6587, 0x672C, 0x6D88, 0x606F]"

definition T_IMAGE :: jsstring where
  "T_IMAGE = [0x56FE, 0x7247, 0x6D88, 0x606F]"

definition T_VOICE :: jsstring where
  "T_VOICE = [0x8BED, 0x97F3]"

definition T_CARD :: jsstring where
  "T_CARD = [0x540D, 0x7247]"

definition T_VIDEO :: jsstring where
  "T_VIDEO = [0x89C6, 0x9891]"

definition T_LOCATION :: jsstring where
  "T_LOCATION = [0x4F4D, 0x7F6E]"

definition T_QUOTE :: jsstring where
  "T_QUOTE = [0x5F15, 0x7528, 0x6D88, 0x606F]"

definition T_UNKNOWN :: jsstring where
  "T_UNKNOWN = [0x672A, 0x77E5]"

section \<open>Sender and content of a group message (extract-date, extract-from-db)\<close>

text \<open>
  Both extractors split the sender from the content of a group message with
  \<^verbatim>\<open>content.match(/^([^:\n]+):\n/)\<close> and, on a match, strip the prefix with
  \<^verbatim>\<open>content.replace(/^[^:\n]+:\n/, '')\<close>. The code unit of \<open>:\<close> is 58, that of the line
  feed is 10.
\<close>

definition SENDER_RE :: rx where
  "SENDER_RE =
     Seq (Bol False) (Seq (Grp 1 (Rept True 1 (Cls (Neg [One 58, One 10])))) (Lit [58, 10]))"

definition SENDER_STRIP_RE :: rx where
  "SENDER_STRIP_RE =
     Seq (Bol False) (Seq (Rept True 1 (Cls (Neg [One 58, One 10]))) (Lit [58, 10]))"

text \<open>
  \<open>splitSender text0\<close>, for the content \<open>text0\<close> read from the row, is the pair \<open>(senderUsername, content)\<close> after the split;
  \<open>senderUsername\<close> starts as the empty string. Group 1 takes part in every match of
  the pattern.
\<close>

definition splitSender :: "jsstring \<Rightarrow> jsstring \<times> jsstring" where
  "splitSender text0 =
     (case js_match SENDER_RE text0 of
        None \<Rightarrow> ([], text0)
      | Some m \<Rightarrow>
          (case grp m 1 of Some u \<Rightarrow> u | None \<Rightarrow> [],
           replace_first SENDER_STRIP_RE (\<lambda>m. []) text0))"

abbreviation notColonNl :: "nat \<Rightarrow> bool" where
  "notColonNl \<equiv> (\<lambda>x. in_cset x (Neg [One 58, One 10]))"

lemma ms_sender_grp:
  "ms (Seq (Grp 1 (Rept True 1 (Cls (Neg [One 58, One 10])))) (Lit [58, 10])) ([], None, s) =
     (if takeWhile notColonNl s \<noteq> [] \<and> prefix [58, 10] (dropWhile notColonNl s)
      then [([(1, takeWhile notColonNl s)], Some 10, drop 2 (dropWhile notColonNl s))]
      else [])"
proof (cases s)
  case Nil
  then show ?thesis by simp
next
  case (Cons x xs)
  show ?thesis
  proof (cases "notColonNl x")
    case False
    then show ?thesis using Cons by simp
  next
    case True
    let ?g = "\<lambda>(cp', p', s'). ((1::nat, take (length s - length s') s) # cp', p', s')"
    let ?f = "ms (Lit [58, 10]) \<circ> ?g"
    have f0: "\<And>cp p y ys. notColonNl y \<Longrightarrow> ?f (cp, p, y # ys) = []"
      by auto
    have "ms (Seq (Grp 1 (Rept True 1 (Cls (Neg [One 58, One 10])))) (Lit [58, 10])) ([], None, s)
          = concat (map ?f (ms (Rept True 0 (Cls (Neg [One 58, One 10]))) ([], Some x, xs)))"
      using Cons True by simp
    also have "\<dots> = ?f ([], (if takeWhile notColonNl xs = [] then Some x
                             else Some (last (takeWhile notColonNl xs))),
                        dropWhile notColonNl xs)"
      by (rule ms_star_greedy_cls) (use f0 in auto)
    finally show ?thesis
      using Cons True
      by (auto simp: take_Suc_minus_dropWhile numeral_2_eq_2)
  qed
qed

lemma ms_sender_strip:
  "ms (Seq (Rept True 1 (Cls (Neg [One 58, One 10]))) (Lit [58, 10])) ([], None, s) =
     (if takeWhile notColonNl s \<noteq> [] \<and> prefix [58, 10] (dropWhile notColonNl s)
      then [([], Some 10, drop 2 (dropWhile notColonNl s))]
      else [])"
proof (cases s)
  case Nil
  then show ?thesis by simp
next
  case (Cons x xs)
  show ?thesis
  proof (cases "notColonNl x")
    case False
    then show ?thesis using Cons by simp
  next
    case True
    have f0: "\<And>cp p y ys. notColonNl y \<Longrightarrow> ms (Lit [58, 10]) (cp, p, y # ys) = []"
      by auto
    have "ms (Seq (Rept True 1 (Cls (Neg [One 58, One 10]))) (Lit [58, 10])) ([], None, s)
          = concat (map (ms (Lit [58, 10]))
              (ms (Rept True 0 (Cls (Neg [One 58, One 10]))) ([], Some x, xs)))"
      using Cons True by simp
    also have "\<dots> = ms (Lit [58, 10]) ([], (if takeWhile notColonNl xs = [] then Some x
                             else Some (last (takeWhile notColonNl xs))),
                        dropWhile notColonNl xs)"
      by (rule ms_star_greedy_cls) (use f0 in auto)
    finally show ?thesis
      using Cons True
      by (auto simp: numeral_2_eq_2)
  qed
qed

lemma sender_whole:
  assumes "prefix [58, 10] (dropWhile P s)"
  shows "take (length s - length (drop 2 (dropWhile P s))) s = takeWhile P s @ [58, 10]"
proof -
  from assms obtain r where r: "dropWhile P s = [58, 10] @ r" by (auto simp: prefix_def)
  have s: "s = takeWhile P s @ [58, 10] @ r"
    using takeWhile_dropWhile_id[of P s] r by simp
  have "length s - length (drop 2 (dropWhile P s)) = length (takeWhile P s @ [58, 10])"
    by (subst s) (simp add: r)
  then show ?thesis by (subst (2) s) (simp del: append.simps)
qed

lemma js_match_sender:
  "js_match SENDER_RE s =
     (if takeWhile notColonNl s \<noteq> [] \<and> prefix [58, 10] (dropWhile notColonNl s)
      then Some ([], takeWhile notColonNl s @ [58, 10], [(1, takeWhile notColonNl s)], Some 10,
                 drop 2 (dropWhile notColonNl s))
      else None)"
  unfolding js_match_def SENDER_RE_def search_bol_start ms_sender_grp
  using sender_whole[of notColonNl s] by simp

lemma js_match_sender_strip:
  "js_match SENDER_STRIP_RE s =
     (if takeWhile notColonNl s \<noteq> [] \<and> prefix [58, 10] (dropWhile notColonNl s)
      then Some ([], takeWhile notColonNl s @ [58, 10], [], Some 10,
                 drop 2 (dropWhile notColonNl s))
      else None)"
  unfolding js_match_def SENDER_STRIP_RE_def search_bol_start ms_sender_strip
  using sender_whole[of notColonNl s] by simp

lemma splitSender_eq:
  "splitSender s =
     (if takeWhile notColonNl s \<noteq> [] \<and> prefix [58, 10] (dropWhile notColonNl s)
      then (takeWhile notColonNl s, drop 2 (dropWhile notColonNl s))
      else ([], s))"
  by (simp add: splitSender_def js_match_sender replace_first_def js_match_sender_strip)

lemma splitSender_iff:
  "(u \<noteq> [] \<and> 58 \<notin> set u \<and> 10 \<notin> set u \<longrightarrow> splitSender (u @ [58, 10] @ r) = (u, r)) \<and>
   ((\<nexists>u r. u \<noteq> [] \<and> 58 \<notin> set u \<and> 10 \<notin> set u \<and> s = u @ [58, 10] @ r)
      \<longrightarrow> splitSender s = ([], s))"
proof (intro conjI impI)
  assume u: "u \<noteq> [] \<and> 58 \<notin> set u \<and> 10 \<notin> set u"
  then have all: "\<And>x. x \<in> set u \<Longrightarrow> notColonNl x" by auto
  have tw: "takeWhile notColonNl (u @ [58, 10] @ r) = u"
    using takeWhile_append2[of u notColonNl "[58, 10] @ r"] all by simp
  have dw: "dropWhile notColonNl (u @ [58, 10] @ r) = [58, 10] @ r"
    using dropWhile_append2[of u notColonNl "[58, 10] @ r"] all by simp
  show "splitSender (u @ [58, 10] @ r) = (u, r)"
    unfolding splitSender_eq tw dw using u by simp
next
  assume no: "\<nexists>u r. u \<noteq> [] \<and> 58 \<notin> set u \<and> 10 \<notin> set u \<and> s = u @ [58, 10] @ r"
  have "\<not> (takeWhile notColonNl s \<noteq> [] \<and> prefix [58, 10] (dropWhile notColonNl s))"
  proof
    assume a: "takeWhile notColonNl s \<noteq> [] \<and> prefix [58, 10] (dropWhile notColonNl s)"
    then obtain r where r: "dropWhile notColonNl s = [58, 10] @ r" by (auto simp: prefix_def)
    have s: "s = takeWhile notColonNl s @ [58, 10] @ r"
      by (metis takeWhile_dropWhile_id r)
    have "58 \<notin> set (takeWhile notColonNl s) \<and> 10 \<notin> set (takeWhile notColonNl s)"
      by (auto dest: set_takeWhileD)
    with a s no show False by blast
  qed
  then show "splitSender s = ([], s)" by (simp add: splitSender_eq)
qed

section \<open>Display names (extract-date, extract-from-db)\<close>

text \<open>
  \<open>isWxidFormat\<close> of both scripts:
  \<^verbatim>\<open>if (!name) return true; return /^[Dd]?wxid_/i.test(name) || /^[A-Za-z0-9_]{15,}$/.test(name);\<close>
  Under the \<open>i\<close> flag (without \<open>u\<close>) a pattern letter of ASCII matches its two ASCII
  cases and nothing else, so each letter of \<open>wxid\<close> is the class of its two cases:
  w 119 W 87, x 120 X 88, i 105 I 73, d 100 D 68; the underscore is 95.
\<close>

definition WXID_PREFIX_RE :: rx where
  "WXID_PREFIX_RE =
     Seq (Bol False)
       (Seq (Opt True (Cls (Pos [One 68, One 100])))
          (Seq (Cls (Pos [One 119, One 87]))
             (Seq (Cls (Pos [One 120, One 88]))
                (Seq (Cls (Pos [One 105, One 73]))
                   (Seq (Cls (Pos [One 100, One 68])) (Lit [95]))))))"

definition LONG_ID_RE :: rx where
  "LONG_ID_RE =
     Seq (Bol False)
       (Seq (Rept True 15 (Cls (Pos [Range 65 90, Range 97 122, Range 48 57, One 95])))
          (Eol False))"

definition isWxidFormat :: "jsstring \<Rightarrow> bool" where
  "isWxidFormat name =
     (if name = [] then True
      else js_test WXID_PREFIX_RE name \<or> js_test LONG_ID_RE name)"

text \<open>
  The clean-up of the sender name in \<^verbatim>\<open>extract-date\<close>:
  \<^verbatim>\<open>senderUsername.match(/([Dd]?wxid_[a-zA-Z0-9]+)/)\<close>, else
  \<^verbatim>\<open>senderUsername.match(/([a-zA-Z][a-zA-Z0-9_]{3,})$/)\<close>, else the name as it is.
\<close>

definition WXID_RE :: rx where
  "WXID_RE =
     Grp 1 (Seq (Opt True (Cls (Pos [One 68, One 100])))
              (Seq (Lit (asc ''wxid_''))
                 (Rept True 1 (Cls (Pos [Range 97 122, Range 65 90, Range 48 57])))))"

definition USERNAME_RE :: rx where
  "USERNAME_RE =
     Seq (Grp 1 (Seq (Cls (Pos [Range 97 122, Range 65 90]))
                   (Rept True 3 (Cls (Pos [Range 97 122, Range 65 90, Range 48 57, One 95])))))
       (Eol False)"

text \<open>A group read as a string; every group read in the scripts takes part in every
  match of its pattern.\<close>

definition grp_str :: "rmatch \<Rightarrow> nat \<Rightarrow> jsstring" where
  "grp_str m k = (case grp m k of Some u \<Rightarrow> u | None \<Rightarrow> [])"

definition cleanUsername :: "jsstring \<Rightarrow> jsstring" where
  "cleanUsername sender =
     (case js_match WXID_RE sender of
        Some wxidMatch \<Rightarrow> grp_str wxidMatch 1
      | None \<Rightarrow>
          (case js_match USERNAME_RE sender of
             Some usernameMatch \<Rightarrow> grp_str usernameMatch 1
           | None \<Rightarrow> sender))"

text \<open>
  A value that is a string, \<open>null\<close> or \<open>undefined\<close> is a \<open>jsstring option\<close>; it is truthy
  when it is a non-empty string, and \<open>a || b\<close> is \<open>a\<close> when \<open>a\<close> is truthy, else \<open>b\<close>.
\<close>

definition truthy :: "jsstring option \<Rightarrow> bool" where
  "truthy v = (case v of None \<Rightarrow> False | Some s \<Rightarrow> s \<noteq> [])"

definition js_or :: "jsstring option \<Rightarrow> jsstring option \<Rightarrow> jsstring option" where
  "js_or a b = (if truthy a then a else b)"

definition str_of :: "jsstring option \<Rightarrow> jsstring" where
  "str_of v = (case v of None \<Rightarrow> [] | Some s \<Rightarrow> s)"

text \<open>The fallback name, U+7FA4 U+6210 U+5458 (group member).\<close>

definition GROUP_MEMBER :: jsstring where
  "GROUP_MEMBER = [0x7FA4, 0x6210, 0x5458]"

text \<open>
  The contacts: a \<open>Map\<close> filled from the rows in their order, a later row replacing an
  earlier one of the same \<open>username\<close>.
\<close>

definition loadContacts :: "Contact list \<Rightarrow> (jsstring \<rightharpoonup> Contact)" where
  "loadContacts contactRows = fold (\<lambda>c m. m(username c \<mapsto> c)) contactRows Map.empty"

text \<open>
  \<open>loadUserAliases\<close>: the entries of the parsed JSON object of
  \<^verbatim>\<open>config/user-aliases.json\<close>, without the key \<open>_comment\<close> and without the values that are
  not strings. A missing file, and a file that cannot be read or parsed (the \<open>catch\<close>),
  give the empty map: both are None here.
\<close>

datatype jval = JString jsstring | JOther

definition loadUserAliases :: "(jsstring \<times> jval) list option \<Rightarrow> (jsstring \<rightharpoonup> jsstring)" where
  "loadUserAliases cfg =
     (case cfg of
        None \<Rightarrow> Map.empty
      | Some entries \<Rightarrow>
          fold (\<lambda>(k, v) aliases.
                  (case v of
                     JString s \<Rightarrow> if k \<noteq> asc ''_comment'' then aliases(k \<mapsto> s) else aliases
                   | JOther \<Rightarrow> aliases))
            entries Map.empty)"

text \<open>
  The three tiers of \<^verbatim>\<open>extract-date\<close>, on the cleaned name first and the raw name second:
  \<^verbatim>\<open>
  const contact = contacts.get(cleanUsername) || contacts.get(senderUsername);
  let displayName = contact?.remark || contact?.nick_name;
  if (!displayName) displayName = userAliases.get(cleanUsername) || userAliases.get(senderUsername);
  if (!displayName) displayName = isWxidFormat(cleanUsername) ? GROUP_MEMBER : (cleanUsername || GROUP_MEMBER);
  \<close>
\<close>

definition displayName_date ::
  "(jsstring \<rightharpoonup> Contact) \<Rightarrow> (jsstring \<rightharpoonup> jsstring) \<Rightarrow> jsstring \<Rightarrow> jsstring" where
  "displayName_date contacts userAliases sender =
     (let cleanU = cleanUsername sender;
          contact = (case contacts cleanU of Some c \<Rightarrow> Some c | None \<Rightarrow> contacts sender);
          d1 = js_or (case contact of None \<Rightarrow> None | Some c \<Rightarrow> remark c)
                     (case contact of None \<Rightarrow> None | Some c \<Rightarrow> nick_name c);
          d2 = (if \<not> truthy d1 then js_or (userAliases cleanU) (userAliases sender)
                else d1)
      in if \<not> truthy d2
         then (if isWxidFormat cleanU then GROUP_MEMBER
               else if cleanU \<noteq> [] then cleanU else GROUP_MEMBER)
         else str_of d2)"

text \<open>
  The three tiers of \<^verbatim>\<open>extract-from-db\<close>, on the raw name only:
  \<^verbatim>\<open>
  const contact = contacts.get(senderUsername);
  let displayName = contact?.remark || contact?.nickname;
  if (!displayName) displayName = userAliases.get(senderUsername);
  if (!displayName) displayName = isWxidFormat(senderUsername) ? GROUP_MEMBER : (senderUsername || GROUP_MEMBER);
  \<close>
\<close>

definition displayName_db ::
  "(jsstring \<rightharpoonup> Contact) \<Rightarrow> (jsstring \<rightharpoonup> jsstring) \<Rightarrow> jsstring \<Rightarrow> jsstring" where
  "displayName_db contacts userAliases sender =
     (let contact = contacts sender;
          d1 = js_or (case contact of None \<Rightarrow> None | Some c \<Rightarrow> remark c)
                     (case contact of None \<Rightarrow> None | Some c \<Rightarrow> nick_name c);
          d2 = (if \<not> truthy d1 then userAliases sender else d1)
      in if \<not> truthy d2
         then (if isWxidFormat sender then GROUP_MEMBER
               else if sender \<noteq> [] then sender else GROUP_MEMBER)
         else str_of d2)"

















section \<open>The two extractors\<close>

subsection \<open>Numbers and times as text\<close>

text \<open>\<open>String(n)\<close> of an integer: its decimal digits, with a minus sign when negative.\<close>

function digits :: "nat \<Rightarrow> jsstring" where
  "digits n = (if n < 10 then [48 + n] else digits (n div 10) @ [48 + n mod 10])"
  by pat_completeness auto
termination
  by (relation "measure (\<lambda>n. n)") auto

declare digits.simps [simp del]

definition show_int :: "int \<Rightarrow> jsstring" where
  "show_int i = (if i < 0 then 45 # digits (nat (- i)) else digits (nat i))"

text \<open>\<open>String(n).padStart(2, '0')\<close>.\<close>

definition pad2 :: "int \<Rightarrow> jsstring" where
  "pad2 n = (let s = show_int n in replicate (2 - length s) 48 @ s)"

text \<open>
  The local-time fields of a \<open>Date\<close> (\<open>getFullYear\<close>, \<open>getMonth\<close>, \<open>getDate\<close>,
  \<open>getHours\<close>, \<open>getMinutes\<close>, \<open>getSeconds\<close>) depend on the time zone of the host; the
  function from a time value in milliseconds to these fields is a parameter \<open>clock\<close>.
\<close>

record DateParts =
  fullYear :: int
  month :: int
  date :: int
  hours :: int
  minutes :: int
  seconds :: int

text \<open>\<open>formatTimestamp(ts)\<close> of \<^verbatim>\<open>extract-from-db\<close>, on milliseconds.\<close>

definition formatTimestamp :: "(int \<Rightarrow> DateParts) \<Rightarrow> int \<Rightarrow> jsstring" where
  "formatTimestamp clock ts =
     (let d = clock ts
      in show_int (fullYear d) @ asc ''-'' @ pad2 (month d + 1) @ asc ''-'' @ pad2 (date d)
         @ asc '' '' @ pad2 (hours d) @ asc '':'' @ pad2 (minutes d) @ asc '':''
         @ pad2 (seconds d))"

text \<open>\<open>formatTime(ts)\<close> of \<^verbatim>\<open>extract-date\<close>, on seconds: \<open>new Date(ts * 1000)\<close>.\<close>

definition formatTime :: "(int \<Rightarrow> DateParts) \<Rightarrow> int \<Rightarrow> jsstring" where
  "formatTime clock ts = formatTimestamp clock (ts * 1000)"

subsection \<open>Message types\<close>

text \<open>\<open>typeMap[msg.local_type] || `unknown(${msg.local_type})`\<close> of \<^verbatim>\<open>extract-date\<close>.\<close>

definition typeName_date :: "int \<Rightarrow> jsstring" where
  "typeName_date t =
     (if t = 1 then T_TEXT
      else if t = 3 then T_IMAGE
      else if t = 34 then T_VOICE
      else if t = 47 then T_EMOJI
      else if t = 49 then T_QUOTE
      else if t = 10000 then T_SYSTEM
      else if t = 10002 then T_RECALL
      else T_UNKNOWN @ asc ''('' @ show_int t @ asc '')'')"

text \<open>\<open>getMessageType\<close> of \<^verbatim>\<open>extract-from-db\<close>.\<close>

definition getMessageType :: "int \<Rightarrow> jsstring" where
  "getMessageType t =
     (if t = 1 then T_TEXT
      else if t = 3 then T_IMAGE
      else if t = 34 then T_VOICE
      else if t = 42 then T_CARD
      else if t = 43 then T_VIDEO
      else if t = 47 then T_EMOJI
      else if t = 48 then T_LOCATION
      else if t = 49 then T_QUOTE
      else if t = 10000 then T_SYSTEM
      else if t = 10002 then T_RECALL
      else T_UNKNOWN @ asc ''('' @ show_int t @ asc '')'')"

subsection \<open>One row to one message\<close>

text \<open>
  The callback of \<open>rows.map\<close> in \<^verbatim>\<open>extract-date\<close>. The content is
  \<open>String(msg.message_content || '')\<close>, \<open>createTime\<close> is in milliseconds, \<open>isSend\<close> is
  \<open>msg.origin_source === 1 ? 1 : 0\<close>.
\<close>

definition formatRow_date ::
  "(int \<Rightarrow> DateParts) \<Rightarrow> (jsstring \<rightharpoonup> Contact) \<Rightarrow> (jsstring \<rightharpoonup> jsstring) \<Rightarrow> MsgRow
     \<Rightarrow> ChatMessage" where
  "formatRow_date clock contacts userAliases msg =
     (let (sender, text1) = splitSender (str_of (message_content msg))
      in \<lparr>localId = local_id msg,
          createTime = create_time msg * 1000,
          formattedTime = formatTime clock (create_time msg),
          type = typeName_date (local_type msg),
          localType = local_type msg,
          content = text1,
          isSend = Some (if origin_source msg = Some 1 then 1 else 0),
          senderUsername = sender,
          senderDisplayName = displayName_date contacts userAliases sender,
          source = str_of (MsgRow.source msg),
          senderAvatarKey = sender,
          emojiMd5 = None\<rparr>)"

text \<open>
  The callback of \<open>filteredMessages.map\<close> in \<^verbatim>\<open>extract-from-db\<close>. The content is
  \<open>msg.content || ''\<close>, and \<open>senderAvatarKey\<close> is \<open>senderUsername || msg.talker\<close>.
\<close>

definition formatRow_db ::
  "(int \<Rightarrow> DateParts) \<Rightarrow> (jsstring \<rightharpoonup> Contact) \<Rightarrow> (jsstring \<rightharpoonup> jsstring) \<Rightarrow> DbRow
     \<Rightarrow> ChatMessage" where
  "formatRow_db clock contacts userAliases msg =
     (let (sender, text1) = splitSender (str_of (DbRow.content msg))
      in \<lparr>localId = DbRow.localId msg,
          createTime = DbRow.createTime msg,
          formattedTime = formatTimestamp clock (DbRow.createTime msg),
          type = getMessageType (DbRow.type msg),
          localType = DbRow.type msg,
          content = text1,
          isSend = DbRow.isSend msg,
          senderUsername = sender,
          senderDisplayName = displayName_db contacts userAliases sender,
          source = talker msg,
          senderAvatarKey = (if sender \<noteq> [] then sender else talker msg),
          emojiMd5 = None\<rparr>)"

text \<open>
  C5. For a row of either extractor, with \<open>raw\<close> the content read from the row (the empty
  string for NULL): if and only if \<open>raw\<close> begins with a non-empty prefix \<open>u\<close> without
  \<open>:\<close> (58) and without a line feed (10), followed by \<open>:\<close> and a line feed, the message
  has \<open>u\<close> as \<open>senderUsername\<close> and the remainder as content; otherwise
  \<open>senderUsername\<close> is the empty string and the content is \<open>raw\<close> unchanged.
\<close>

theorem sender_content_split:
  "(let raw = str_of (message_content row1); m = formatRow_date clock contacts aliases row1
    in (u \<noteq> [] \<and> 58 \<notin> set u \<and> 10 \<notin> set u \<and> raw = u @ [58, 10] @ r
          \<longrightarrow> senderUsername m = u \<and> content m = r)
     \<and> ((\<nexists>u r. u \<noteq> [] \<and> 58 \<notin> set u \<and> 10 \<notin> set u \<and> raw = u @ [58, 10] @ r)
          \<longrightarrow> senderUsername m = [] \<and> content m = raw))
   \<and> (let raw = str_of (DbRow.content row2); m = formatRow_db clock contacts aliases row2
    in (u \<noteq> [] \<and> 58 \<notin> set u \<and> 10 \<notin> set u \<and> raw = u @ [58, 10] @ r
          \<longrightarrow> senderUsername m = u \<and> content m = r)
     \<and> ((\<nexists>u r. u \<noteq> [] \<and> 58 \<notin> set u \<and> 10 \<notin> set u \<and> raw = u @ [58, 10] @ r)
          \<longrightarrow> senderUsername m = [] \<and> content m = raw))"
proof -
  have d: "senderUsername (formatRow_date clock contacts aliases row1)
             = fst (splitSender (str_of (message_content row1)))"
    "content (formatRow_date clock contacts aliases row1)
             = snd (splitSender (str_of (message_content row1)))"
    by (simp_all add: formatRow_date_def split_beta)
  have b: "senderUsername (formatRow_db clock contacts aliases row2)
             = fst (splitSender (str_of (DbRow.content row2)))"
    "content (formatRow_db clock contacts aliases row2)
             = snd (splitSender (str_of (DbRow.content row2)))"
    by (simp_all add: formatRow_db_def split_beta)
  have s: "\<And>raw. (u \<noteq> [] \<and> 58 \<notin> set u \<and> 10 \<notin> set u \<and> raw = u @ [58, 10] @ r
               \<longrightarrow> fst (splitSender raw) = u \<and> snd (splitSender raw) = r)
           \<and> ((\<nexists>u r. u \<noteq> [] \<and> 58 \<notin> set u \<and> 10 \<notin> set u \<and> raw = u @ [58, 10] @ r)
               \<longrightarrow> fst (splitSender raw) = [] \<and> snd (splitSender raw) = raw)"
    using splitSender_iff[of u r] by auto
  show ?thesis
    unfolding Let_def d b
    using s[of "str_of (message_content row1)"] s[of "str_of (DbRow.content row2)"]
    by blast
qed

text \<open>Rows for the examples.\<close>

definition ex_row_date :: "int \<Rightarrow> jsstring option \<Rightarrow> MsgRow" where
  "ex_row_date t c =
     \<lparr>local_id = 1, create_time = t, local_type = 1, message_content = c,
      origin_source = None, source = None\<rparr>"

definition ex_row_db :: "int \<Rightarrow> jsstring option \<Rightarrow> jsstring \<Rightarrow> DbRow" where
  "ex_row_db t c g =
     \<lparr>DbRow.localId = 1, DbRow.createTime = t, DbRow.type = 1, DbRow.content = c,
      DbRow.isSend = None, talker = g, msgSvrId = 0\<rparr>"

text \<open>A clock for the examples: every time value reads as 2026-01-16 08:00:00.\<close>

definition ex_clock :: "int \<Rightarrow> DateParts" where
  "ex_clock ts = \<lparr>fullYear = 2026, month = 0, date = 16, hours = 8, minutes = 0, seconds = 0\<rparr>"

theorem sender_content_split_witness:
  "senderUsername (formatRow_date ex_clock Map.empty Map.empty
       (ex_row_date 0 (Some (asc ''wxid_ab12:'' @ [10] @ asc ''hello: there'')))) = asc ''wxid_ab12''
   \<and> content (formatRow_date ex_clock Map.empty Map.empty
       (ex_row_date 0 (Some (asc ''wxid_ab12:'' @ [10] @ asc ''hello: there'')))) = asc ''hello: there''
   \<and> senderUsername (formatRow_db ex_clock Map.empty Map.empty
       (ex_row_db 0 (Some (asc ''no sender here'')) [])) = []
   \<and> content (formatRow_db ex_clock Map.empty Map.empty
       (ex_row_db 0 (Some (asc ''no sender here'')) [])) = asc ''no sender here''"
proof -
  have 1: "asc ''wxid_ab12'' \<noteq> [] \<and> 58 \<notin> set (asc ''wxid_ab12'') \<and> 10 \<notin> set (asc ''wxid_ab12'')
           \<and> str_of (message_content (ex_row_date 0 (Some (asc ''wxid_ab12:'' @ [10] @ asc ''hello: there''))))
               = asc ''wxid_ab12'' @ [58, 10] @ asc ''hello: there''"
    by (simp add: asc_def ex_row_date_def str_of_def)
  have 2: "\<nexists>u r. u \<noteq> [] \<and> 58 \<notin> set u \<and> 10 \<notin> set u
              \<and> str_of (DbRow.content (ex_row_db 0 (Some (asc ''no sender here'')) [])) = u @ [58, 10] @ r"
  proof
    assume "\<exists>u r. u \<noteq> [] \<and> 58 \<notin> set u \<and> 10 \<notin> set u
              \<and> str_of (DbRow.content (ex_row_db 0 (Some (asc ''no sender here'')) [])) = u @ [58, 10] @ r"
    then obtain u r where "asc ''no sender here'' = u @ [58, 10] @ r"
      by (auto simp: ex_row_db_def str_of_def)
    then have "58 \<in> set (asc ''no sender here'')" by (metis in_set_conv_decomp append_Cons)
    then show False by (simp add: asc_def)
  qed
  from sender_content_split[of "ex_row_date 0 (Some (asc ''wxid_ab12:'' @ [10] @ asc ''hello: there''))"
      ex_clock Map.empty Map.empty "asc ''wxid_ab12''" "asc ''hello: there''"
      "ex_row_db 0 (Some (asc ''no sender here'')) []"] 1 2
  show ?thesis by (simp add: Let_def ex_row_db_def str_of_def)
qed

subsection \<open>The message database\<close>

text \<open>
  The message database is the list of its tables as \<open>sqlite_master\<close> lists them, each
  with its name. A table either has the columns that the script selects, and then its
  rows, or it has other columns, and then a statement on it throws. SQLite compares
  table names, and \<open>LIKE\<close> compares letters, without regard to ASCII case.
\<close>

datatype 'r table = Rows "'r list" | OtherColumns

type_synonym 'r database = "(jsstring \<times> 'r table) list"

definition ascii_lower :: "nat \<Rightarrow> nat" where
  "ascii_lower c = (if 65 \<le> c \<and> c \<le> 90 then c + 32 else c)"

definition sql_table :: "'r database \<Rightarrow> jsstring \<Rightarrow> 'r table option" where
  "sql_table db name =
     map_option snd (find (\<lambda>(n, t). map ascii_lower n = map ascii_lower name) db)"

text \<open>\<open>text LIKE pattern\<close>: \<open>%\<close> (37) is any run of units, \<open>_\<close> (95) is any one unit.\<close>

fun sql_like :: "jsstring \<Rightarrow> jsstring \<Rightarrow> bool" where
  "sql_like [] s = (s = [])"
| "sql_like (c # ps) s =
     (if c = 37 then
        (sql_like ps s \<or> (case s of [] \<Rightarrow> False | x # xs \<Rightarrow> sql_like (c # ps) xs))
      else
        (case s of
           [] \<Rightarrow> False
         | x # xs \<Rightarrow> (c = 95 \<or> ascii_lower c = ascii_lower x) \<and> sql_like ps xs))"

text \<open>
  Both scripts splice the name of the table into the text of their statement as it is,
  without quotes (\<^verbatim>\<open>FROM ${GROUP_TABLE}\<close>, \<^verbatim>\<open>FROM ${tableName}\<close>), so SQLite reads the name
  as SQL. It reads it as the name of a table when the text is one identifier:
  \<open>msg_identifier\<close> holds of the texts that begin with \<open>msg\<close> in any case and consist of
  ASCII letters, digits and underscores, which are identifiers (no keyword of SQLite
  begins with \<open>msg\<close>). What SQLite makes of any other text (a syntax error, a table
  under an alias, a join) is outside this model: \<open>sql_select\<close> is None there.

  \<open>sql_select db text\<close> is what a \<open>SELECT\<close> of the columns of the script \<open>FROM text\<close>
  ranges over: the rows of the table, or the error that the statement throws.
\<close>

definition sql_name_char :: "nat \<Rightarrow> bool" where
  "sql_name_char c = (c = 95 \<or> (48 \<le> c \<and> c \<le> 57) \<or> (65 \<le> c \<and> c \<le> 90) \<or> (97 \<le> c \<and> c \<le> 122))"

definition msg_identifier :: "jsstring \<Rightarrow> bool" where
  "msg_identifier n = (prefix (asc ''msg'') (map ascii_lower n) \<and> list_all sql_name_char n)"

datatype sql_error = NoSuchTable jsstring | NoSuchColumn jsstring

definition sql_select :: "'r database \<Rightarrow> jsstring \<Rightarrow> (sql_error + 'r list) option" where
  "sql_select db text =
     (if msg_identifier text
      then Some (case sql_table db text of
                   None \<Rightarrow> Inl (NoSuchTable text)
                 | Some OtherColumns \<Rightarrow> Inl (NoSuchColumn text)
                 | Some (Rows rs) \<Rightarrow> Inr rs)
      else None)"

text \<open>What a script writes to its JSON file: the two computed fields of \<open>session\<close> and the
  messages (the other fields of \<open>session\<close> are fixed strings).\<close>

record ExportFile =
  lastTimestamp :: int
  messageCount :: nat
  messages :: "ChatMessage list"

subsection \<open>extract-date\<close>

definition GROUP_TABLE :: jsstring where
  "GROUP_TABLE = asc ''Msg_f330f51132799c870641cbaf14f1ac21''"

text \<open>
  The query of \<^verbatim>\<open>extract-date\<close> on the rows of the group table:
  \<^verbatim>\<open>WHERE create_time >= ? AND create_time < ? ORDER BY create_time ASC\<close> with
  \<open>startTs = new Date(targetDate).getTime() / 1000\<close> and \<open>endTs = startTs + 86400\<close>.
  \<open>t0\<close> is the value of \<open>new Date(targetDate).getTime()\<close>, a number of milliseconds; the
  division is exact on rationals.
\<close>

definition rowsOfDate :: "MsgRow list \<Rightarrow> int \<Rightarrow> MsgRow list" where
  "rowsOfDate rs t0 =
     (let startTs = (of_int t0 :: rat) / 1000;
          endTs = startTs + 86400
      in sort_key create_time
           (filter (\<lambda>r. startTs \<le> of_int (create_time r) \<and> of_int (create_time r) < endTs) rs))"

text \<open>
  The script: either the error of its statement, which ends it, or the file it writes
  (no file when no row is found); the name \<open>GROUP_TABLE\<close> is an identifier, so the
  statement is on the table of that name. \<open>lastTimestamp\<close> is
  \<open>formatted[formatted.length - 1]?.createTime || 0\<close>.
\<close>

definition extract_date ::
  "MsgRow database \<Rightarrow> Contact list \<Rightarrow> (jsstring \<times> jval) list option \<Rightarrow> (int \<Rightarrow> DateParts) \<Rightarrow> int
     \<Rightarrow> (sql_error + ExportFile option) option" where
  "extract_date db contactRows aliasCfg clock t0 =
     (case sql_select db GROUP_TABLE of
        None \<Rightarrow> None
      | Some (Inl err) \<Rightarrow> Some (Inl err)
      | Some (Inr rs) \<Rightarrow>
          (let rows = rowsOfDate rs t0;
               formatted = map (formatRow_date clock (loadContacts contactRows)
                                  (loadUserAliases aliasCfg)) rows
           in if rows \<noteq> []
              then Some (Inr (Some \<lparr>lastTimestamp = createTime (last formatted),
                                     messageCount = length formatted,
                                     messages = formatted\<rparr>))
              else Some (Inr None)))"

subsection \<open>extract-from-db\<close>

definition TARGET_GROUP :: jsstring where
  "TARGET_GROUP = asc ''50381382798@chatroom''"

definition MSG_PATTERN :: jsstring where
  "MSG_PATTERN = asc ''Msg_%''"

text \<open>\<^verbatim>\<open>SELECT name FROM sqlite_master WHERE type='table' AND name LIKE 'Msg_%'\<close>.\<close>

definition discoverTables :: "DbRow database \<Rightarrow> jsstring list" where
  "discoverTables db = filter (sql_like MSG_PATTERN) (map fst db)"

text \<open>
  The body of the loop over the tables:
  \<^verbatim>\<open>SELECT ... FROM ${tableName} WHERE talker = ? ORDER BY createTime ASC\<close>; a statement that
  throws is caught and the table is skipped.
\<close>

definition scanTable :: "DbRow database \<Rightarrow> jsstring \<Rightarrow> DbRow list option" where
  "scanTable db tableName =
     (case sql_select db tableName of
        None \<Rightarrow> None
      | Some (Inl err) \<Rightarrow> Some []
      | Some (Inr rs) \<Rightarrow>
          Some (sort_key DbRow.createTime (filter (\<lambda>r. talker r = TARGET_GROUP) rs)))"

text \<open>\<open>allMessages\<close> after the loop: the rows of each table, appended in the order of the
  tables.\<close>

definition allMessages :: "DbRow database \<Rightarrow> DbRow list option" where
  "allMessages db = map_option concat (those (map (scanTable db) (discoverTables db)))"




subsection \<open>Databases as the scripts find them\<close>

text \<open>
  In a database of SQLite the names of the tables are distinct, also up to ASCII case
  (\<open>distinct_names\<close>). The message database of WeChat names the table of a conversation
  \<open>Msg_\<close> followed by the MD5 of the talker in hexadecimal: the names that the pattern
  \<open>Msg_%\<close> finds are identifiers (\<open>plain_names\<close>), and the messages of one talker are
  in one table. \<open>targetRows\<close> are the rows of the target group in the tables that the
  pattern finds and that have the columns of the statement, in the order of the
  tables; \<open>tablesOfGroup\<close> are the names of the tables among these that hold a row of
  the target group.
\<close>

definition distinct_names :: "'r database \<Rightarrow> bool" where
  "distinct_names db = distinct (map (\<lambda>(n, t). map ascii_lower n) db)"

definition plain_names :: "'r database \<Rightarrow> bool" where
  "plain_names db = list_all (\<lambda>(n, t). sql_like MSG_PATTERN n \<longrightarrow> msg_identifier n) db"

definition groupRows :: "DbRow table \<Rightarrow> DbRow list" where
  "groupRows t =
     (case t of Rows rs \<Rightarrow> filter (\<lambda>r. talker r = TARGET_GROUP) rs | OtherColumns \<Rightarrow> [])"

definition targetRows :: "DbRow database \<Rightarrow> DbRow list" where
  "targetRows db =
     concat (map (\<lambda>(n, t). groupRows t) (filter (\<lambda>(n, t). sql_like MSG_PATTERN n) db))"


subsection \<open>Facts about the extractors\<close>

lemma createTime_formatRow_db [simp]:
  "createTime (formatRow_db clock contacts aliases r) = DbRow.createTime r"
  by (simp add: formatRow_db_def split_beta)

lemma createTime_formatRow_date [simp]:
  "createTime (formatRow_date clock contacts aliases r) = create_time r * 1000"
  by (simp add: formatRow_date_def split_beta)

lemma sql_like_percent: "sql_like [37] s"
  by (induction s) simp_all

lemma sql_like_Msg_prefix: "prefix (asc ''Msg_'') n \<Longrightarrow> sql_like MSG_PATTERN n"
  by (auto simp: prefix_def asc_def MSG_PATTERN_def sql_like_percent simp del: sql_like.simps(2)
        intro!: sql_like.simps(2)[THEN iffD2])

lemma sql_table_distinct:
  "distinct_names db \<Longrightarrow> (n, t) \<in> set db \<Longrightarrow> sql_table db n = Some t"
  unfolding distinct_names_def
proof (induction db)
  case Nil
  then show ?case by simp
next
  case (Cons e db)
  obtain n' t' where e: "e = (n', t')" by (cases e)
  show ?case
  proof (cases "map ascii_lower n' = map ascii_lower n")
    case True
    with Cons.prems e have "(n, t) = (n', t')" by (force simp: image_iff)
    with True e show ?thesis by (simp add: sql_table_def)
  next
    case False
    with Cons e show ?thesis by (auto simp: sql_table_def)
  qed
qed

lemma GROUP_TABLE_identifier: "msg_identifier GROUP_TABLE"
  by (simp add: msg_identifier_def GROUP_TABLE_def asc_def ascii_lower_def sql_name_char_def)



lemma scanTable_entry:
  assumes "distinct_names db" "plain_names db" "(n, t) \<in> set db" "sql_like MSG_PATTERN n"
  shows "scanTable db n = Some (sort_key DbRow.createTime (groupRows t))"
proof -
  from assms(2,3,4) have "msg_identifier n"
    by (auto simp: plain_names_def list_all_iff)
  moreover from sql_table_distinct[OF assms(1,3)] have "sql_table db n = Some t" .
  ultimately show ?thesis
    by (simp add: scanTable_def sql_select_def groupRows_def split: table.splits)
qed

lemma those_map_Some:
  "(\<And>x. x \<in> set xs \<Longrightarrow> f x = Some (g x)) \<Longrightarrow> those (map f xs) = Some (map g xs)"
  by (induction xs) simp_all

lemma discoverTables_filter:
  "discoverTables db = map fst (filter (\<lambda>(n, t). sql_like MSG_PATTERN n) db)"
  by (simp add: discoverTables_def filter_map comp_def split_def)

lemma allMessages_eq:
  assumes "distinct_names db" "plain_names db"
  shows "allMessages db =
           Some (concat (map (\<lambda>(n, t). sort_key DbRow.createTime (groupRows t))
                           (filter (\<lambda>(n, t). sql_like MSG_PATTERN n) db)))"
proof -
  let ?es = "filter (\<lambda>(n, t). sql_like MSG_PATTERN n) db"
  have "\<And>e. e \<in> set ?es
          \<Longrightarrow> scanTable db (fst e) = Some (sort_key DbRow.createTime (groupRows (snd e)))"
    using scanTable_entry[OF assms] by auto
  then have "those (map (\<lambda>e. scanTable db (fst e)) ?es)
               = Some (map (\<lambda>e. sort_key DbRow.createTime (groupRows (snd e))) ?es)"
    by (rule those_map_Some)
  then show ?thesis
    by (simp add: allMessages_def discoverTables_filter comp_def split_def)
qed

lemma mset_concat_sorted:
  "mset (concat (map (\<lambda>(n, t). sort_key k (g t)) es)) = mset (concat (map (\<lambda>(n, t). g t) es))"
  by (induction es) (simp_all add: split_def)

lemma allMessages_targetRows:
  assumes "distinct_names db" "plain_names db"
  shows "\<exists>msgs. allMessages db = Some msgs \<and> mset msgs = mset (targetRows db)"
  unfolding allMessages_eq[OF assms] targetRows_def
  using mset_concat_sorted[of DbRow.createTime groupRows] by simp









definition ex_db_group :: "DbRow database" where
  "ex_db_group =
     [(asc ''Msg_a'', Rows [ex_row_db 1768521602000 (Some (asc ''later'')) TARGET_GROUP,
                            ex_row_db 1768521601000 (Some (asc ''earlier'')) TARGET_GROUP,
                            ex_row_db 1768435200000 (Some (asc ''day before'')) TARGET_GROUP]),
      (asc ''Msg_b'', Rows [ex_row_db 1768521603000 (Some (asc ''other'')) (asc ''friend'')]),
      (asc ''Msg_c'', OtherColumns),
      (asc ''Name2Id'', OtherColumns)]"

lemma ex_db_group_names: "distinct_names ex_db_group" "plain_names ex_db_group"
  by (simp_all add: distinct_names_def plain_names_def ex_db_group_def MSG_PATTERN_def
        msg_identifier_def sql_name_char_def asc_def ascii_lower_def)

lemma targetRows_ex_db_group:
  "targetRows ex_db_group =
     [ex_row_db 1768521602000 (Some (asc ''later'')) TARGET_GROUP,
      ex_row_db 1768521601000 (Some (asc ''earlier'')) TARGET_GROUP,
      ex_row_db 1768435200000 (Some (asc ''day before'')) TARGET_GROUP]"
  by (simp add: targetRows_def groupRows_def ex_db_group_def MSG_PATTERN_def ex_row_db_def
        TARGET_GROUP_def asc_def ascii_lower_def)




text \<open>
  A message database whose only table is named \<open>Msg_abc\<close> and holds a message of
  2026-01-16.
\<close>

definition ex_db_date :: "MsgRow database" where
  "ex_db_date = [(asc ''Msg_abc'', Rows [ex_row_date 1768521601 (Some (asc ''hi''))])]"

text \<open>
  C4, as stated, fails on \<^verbatim>\<open>extract-date\<close>: the script runs one statement, on the table
  named by its constant \<open>GROUP_TABLE\<close>, whatever the schema holds; here the only table
  has a name that begins with \<open>Msg_\<close> and a message of the target date, and it is never
  read: the statement of the script throws.
\<close>

theorem extract_date_hardcoded_table:
  "prefix (asc ''Msg_'') (asc ''Msg_abc'')
   \<and> extract_date ex_db_date [] None ex_clock 1768521600000
       = Some (Inl (NoSuchTable GROUP_TABLE))"
  using GROUP_TABLE_identifier
  by (simp add: extract_date_def sql_select_def sql_table_def ex_db_date_def GROUP_TABLE_def
        asc_def ascii_lower_def)

text \<open>
  C4, amended. \<^verbatim>\<open>extract-from-db\<close> asks \<open>sqlite_master\<close> for the tables whose name is
  \<open>LIKE 'Msg_%'\<close>: every table whose name begins with \<open>Msg_\<close> is among them. On a
  database as the script finds it, with the names of these tables identifiers, it reads
  exactly these tables: the messages that it collects are the rows with \<open>talker\<close> equal
  to the target group of those among them that have the columns of the statement,
  each once. \<^verbatim>\<open>extract-date\<close> runs no discovery: what it does depends on the
  schema through the table named by its constant \<open>GROUP_TABLE\<close> only, and without that
  table its statement throws.
\<close>

theorem table_discovery:
  "((n, t) \<in> set db \<and> prefix (asc ''Msg_'') n \<longrightarrow> n \<in> set (discoverTables db))
   \<and> (distinct_names db \<and> plain_names db \<longrightarrow>
        (\<exists>msgs. allMessages db = Some msgs \<and> mset msgs = mset (targetRows db)))
   \<and> (sql_table db1 GROUP_TABLE = sql_table db2 GROUP_TABLE \<longrightarrow>
        extract_date db1 cr cfg clock t0 = extract_date db2 cr cfg clock t0)
   \<and> (sql_table db1 GROUP_TABLE = None \<longrightarrow>
        extract_date db1 cr cfg clock t0 = Some (Inl (NoSuchTable GROUP_TABLE)))"
proof (intro conjI impI)
  show "n \<in> set (discoverTables db)" if "(n, t) \<in> set db \<and> prefix (asc ''Msg_'') n"
    using that sql_like_Msg_prefix[of n] by (force simp: discoverTables_def)
  show "\<exists>msgs. allMessages db = Some msgs \<and> mset msgs = mset (targetRows db)"
    if "distinct_names db \<and> plain_names db"
    using that allMessages_targetRows[of db] by blast
  show "extract_date db1 cr cfg clock t0 = extract_date db2 cr cfg clock t0"
    if "sql_table db1 GROUP_TABLE = sql_table db2 GROUP_TABLE"
    using that by (simp add: extract_date_def sql_select_def)
  show "extract_date db1 cr cfg clock t0 = Some (Inl (NoSuchTable GROUP_TABLE))"
    if "sql_table db1 GROUP_TABLE = None"
    using that GROUP_TABLE_identifier by (simp add: extract_date_def sql_select_def)
qed

theorem table_discovery_witness:
  "asc ''Msg_a'' \<in> set (discoverTables ex_db_group)
   \<and> (\<exists>msgs. allMessages ex_db_group = Some msgs
         \<and> mset msgs = mset [ex_row_db 1768521602000 (Some (asc ''later'')) TARGET_GROUP,
                             ex_row_db 1768521601000 (Some (asc ''earlier'')) TARGET_GROUP,
                             ex_row_db 1768435200000 (Some (asc ''day before'')) TARGET_GROUP])
   \<and> extract_date ex_db_date [] None ex_clock 1768521600000
       = extract_date [] [] None ex_clock 1768521600000
   \<and> extract_date ex_db_date [] None ex_clock 1768521600000
       = Some (Inl (NoSuchTable GROUP_TABLE))"
proof -
  let ?t = "Rows [ex_row_db 1768521602000 (Some (asc ''later'')) TARGET_GROUP,
                  ex_row_db 1768521601000 (Some (asc ''earlier'')) TARGET_GROUP,
                  ex_row_db 1768435200000 (Some (asc ''day before'')) TARGET_GROUP]"
  have 1: "(asc ''Msg_a'', ?t) \<in> set ex_db_group \<and> prefix (asc ''Msg_'') (asc ''Msg_a'')"
    by (simp add: ex_db_group_def asc_def)
  have 2: "sql_table ex_db_date GROUP_TABLE = None" "sql_table ([] :: MsgRow database) GROUP_TABLE = None"
    by (simp_all add: sql_table_def ex_db_date_def GROUP_TABLE_def asc_def ascii_lower_def)
  note T = table_discovery[of "asc ''Msg_a''" ?t ex_db_group ex_db_date "[]" "[]" None ex_clock
      1768521600000]
  from T 1 have a: "asc ''Msg_a'' \<in> set (discoverTables ex_db_group)" by blast
  from T ex_db_group_names
  have "\<exists>msgs. allMessages ex_db_group = Some msgs \<and> mset msgs = mset (targetRows ex_db_group)"
    by blast
  then have b: "\<exists>msgs. allMessages ex_db_group = Some msgs \<and> mset msgs = mset
       [ex_row_db 1768521602000 (Some (asc ''later'')) TARGET_GROUP,
        ex_row_db 1768521601000 (Some (asc ''earlier'')) TARGET_GROUP,
        ex_row_db 1768435200000 (Some (asc ''day before'')) TARGET_GROUP]"
    unfolding targetRows_ex_db_group .
  from 2 have e: "sql_table ex_db_date GROUP_TABLE = sql_table [] GROUP_TABLE" by simp
  from T e have c: "extract_date ex_db_date [] None ex_clock 1768521600000
       = extract_date [] [] None ex_clock 1768521600000" by blast
  from T 2(1) have d: "extract_date ex_db_date [] None ex_clock 1768521600000
       = Some (Inl (NoSuchTable GROUP_TABLE))" by blast
  from a b c d show ?thesis by (intro conjI)
qed

section \<open>Tagged blocks\<close>

text \<open>
  The report scripts find the blocks of a report with patterns of one shape,
  \<^verbatim>\<open>/\[STATS\]([\s\S]*?)\[\/STATS\]/g\<close> and the same for \<open>TOPIC\<close> and \<open>QUOTE\<close>: an opening
  tag, a lazy run of any units in group 1, a closing tag.
\<close>

definition TAG :: "jsstring \<Rightarrow> jsstring \<Rightarrow> rx" where
  "TAG opn cls = Seq (Lit opn) (Seq (Grp 1 (Rept False 0 (Cls AnyUnit))) (Lit cls))"

text \<open>
  What such a pattern finds, in plain terms. \<open>find_sub w s\<close> splits \<open>s\<close> around the first
  occurrence of \<open>w\<close>; \<open>find_tag opn cls s\<close> gives the text before the first block of
  \<open>s\<close>, the content of the block, and the text after it: the block starts at the first
  opening tag that has a closing tag after it and ends at the first closing tag after
  that opening tag.
\<close>

fun find_sub :: "jsstring \<Rightarrow> jsstring \<Rightarrow> (jsstring \<times> jsstring) option" where
  "find_sub w [] = (if w = [] then Some ([], []) else None)"
| "find_sub w (x # xs) =
     (if prefix w (x # xs) then Some ([], drop (length w) (x # xs))
      else map_option (\<lambda>(a, b). (x # a, b)) (find_sub w xs))"

fun find_tag :: "jsstring \<Rightarrow> jsstring \<Rightarrow> jsstring \<Rightarrow> (jsstring \<times> jsstring \<times> jsstring) option" where
  "find_tag opn cls [] = None"
| "find_tag opn cls (x # xs) =
     (case (if prefix opn (x # xs) then find_sub cls (drop (length opn) (x # xs)) else None) of
        Some (b, r) \<Rightarrow> Some ([], b, r)
      | None \<Rightarrow> map_option (\<lambda>(a, b, r). (x # a, b, r)) (find_tag opn cls xs))"

definition first_of :: "'a list \<Rightarrow> 'a option" where
  "first_of xs = (case xs of [] \<Rightarrow> None | x # _ \<Rightarrow> Some x)"

lemma first_of_simps [simp]:
  "first_of [] = None" "first_of (x # xs) = Some x"
  "first_of (xs @ ys) = (case first_of xs of None \<Rightarrow> first_of ys | Some x \<Rightarrow> Some x)"
  by (cases xs; simp add: first_of_def)+

lemma ms_lazy_any:
  "ms (Rept False 0 (Cls AnyUnit)) (cp, p, s) =
     (cp, p, s) # (case s of [] \<Rightarrow> [] | x # xs \<Rightarrow> ms (Rept False 0 (Cls AnyUnit)) (cp, Some x, xs))"
  by (subst ms.simps(6)) (simp add: AnyUnit_def split: list.splits)

lemma first_lazy_then_lit:
  assumes "cls \<noteq> []"
  shows "first_of (concat (map (\<lambda>(cp', p', s').
              ms (Lit cls) ((k, take (length (acc @ s) - length s') (acc @ s)) # cp', p', s'))
            (ms (Rept False 0 (Cls AnyUnit)) (cp, p, s))))
         = (case find_sub cls s of
              None \<Rightarrow> None
            | Some (b, r) \<Rightarrow> Some ((k, acc @ b) # cp, Some (last cls), r))"
proof (induction s arbitrary: p acc)
  case Nil
  show ?case using assms by (subst ms_lazy_any) simp
next
  case (Cons x xs)
  show ?case
  proof (cases "prefix cls (x # xs)")
    case True
    then show ?thesis using assms by (subst ms_lazy_any) simp
  next
    case False
    have "acc @ x # xs = (acc @ [x]) @ xs" by simp
    then show ?thesis
      using False assms Cons[of "acc @ [x]" "Some x"]
      by (subst ms_lazy_any) (simp split: option.splits)
  qed
qed

lemma ms_seq_grp:
  "ms (Seq (Grp k r) b) (cp, p, s) =
     concat (map (\<lambda>(cp', p', s'). ms b ((k, take (length s - length s') s) # cp', p', s'))
               (ms r (cp, p, s)))"
  by (simp add: comp_def split_def)

lemma ms_seq_lit:
  "w \<noteq> [] \<Longrightarrow> ms (Seq (Lit w) b) (cp, p, s) =
     (if prefix w s then ms b (cp, Some (last w), drop (length w) s) else [])"
  by simp

lemma first_grp_lazy_lit:
  assumes "cls \<noteq> []"
  shows "first_of (ms (Seq (Grp k (Rept False 0 (Cls AnyUnit))) (Lit cls)) (cp, p, s)) =
           (case find_sub cls s of
              None \<Rightarrow> None
            | Some (b, r) \<Rightarrow> Some ((k, b) # cp, Some (last cls), r))"
  unfolding ms_seq_grp
  using first_lazy_then_lit[OF assms, of k "[]" s cp p]
  by (simp del: ms.simps split: option.splits)

lemma first_ms_TAG:
  assumes "cls \<noteq> []" "opn \<noteq> []"
  shows "first_of (ms (TAG opn cls) (cp, p, s)) =
           (case (if prefix opn s then find_sub cls (drop (length opn) s) else None) of
              None \<Rightarrow> None
            | Some (b, r) \<Rightarrow> Some ((1, b) # cp, Some (last cls), r))"
  unfolding TAG_def ms_seq_lit[OF assms(2)]
  by (simp del: ms.simps add: first_grp_lazy_lit[OF assms(1)] split: option.splits)

lemma find_sub_Some: "find_sub w s = Some (a, b) \<Longrightarrow> s = a @ w @ b"
proof (induction s arbitrary: a)
  case Nil
  then show ?case by (simp split: if_splits)
next
  case (Cons x xs)
  show ?case
  proof (cases "prefix w (x # xs)")
    case True
    with Cons.prems show ?thesis by (auto simp: prefix_def)
  next
    case False
    with Cons.prems obtain a' where "find_sub w xs = Some (a', b)" "a = x # a'" by auto
    with Cons.IH show ?thesis by simp
  qed
qed

lemma find_sub_None: "find_sub w s = None \<longleftrightarrow> \<not> (\<exists>a b. s = a @ w @ b)"
proof (induction s)
  case Nil
  then show ?case by auto
next
  case (Cons x xs)
  show ?case
  proof (cases "prefix w (x # xs)")
    case True
    then obtain b where "x # xs = [] @ w @ b" by (auto simp: prefix_def)
    with True show ?thesis by (metis find_sub.simps(2) option.distinct(1))
  next
    case False
    have "(\<exists>a b. x # xs = a @ w @ b) \<longleftrightarrow> (\<exists>a b. xs = a @ w @ b)"
    proof
      assume "\<exists>a b. x # xs = a @ w @ b"
      then obtain a b where ab: "x # xs = a @ w @ b" by blast
      show "\<exists>a b. xs = a @ w @ b"
      proof (cases a)
        case Nil
        with ab False show ?thesis by (simp add: prefix_def)
      next
        case (Cons y ys)
        with ab show ?thesis by auto
      qed
    next
      assume "\<exists>a b. xs = a @ w @ b"
      then obtain a b where "xs = a @ w @ b" by blast
      then have "x # xs = (x # a) @ w @ b" by simp
      then show "\<exists>a b. x # xs = a @ w @ b" by blast
    qed
    with False Cons show ?thesis by simp
  qed
qed

text \<open>\<open>only_at_end w a\<close>: in \<open>a @ w\<close> the text \<open>w\<close> occurs at the end only, so that the
  \<open>w\<close> after \<open>a\<close> is the first occurrence.\<close>

definition only_at_end :: "jsstring \<Rightarrow> jsstring \<Rightarrow> bool" where
  "only_at_end w a = (\<forall>a' b'. a @ w = a' @ w @ b' \<longrightarrow> b' = [])"

lemma only_at_end_Cons: "only_at_end w (x # a) \<Longrightarrow> only_at_end w a"
  unfolding only_at_end_def
proof (intro allI impI)
  fix a' b'
  assume h: "\<forall>a' b'. (x # a) @ w = a' @ w @ b' \<longrightarrow> b' = []" and e: "a @ w = a' @ w @ b'"
  from e have "(x # a) @ w = (x # a') @ w @ b'" by simp
  with h show "b' = []" by blast
qed

lemma only_at_end_not_prefix:
  assumes "only_at_end w (x # a)"
  shows "\<not> prefix w ((x # a) @ w @ b)"
proof
  assume "prefix w ((x # a) @ w @ b)"
  then have "prefix w (((x # a) @ w) @ b)" by simp
  then have "prefix w ((x # a) @ w)"
    unfolding prefix_append[of w "(x # a) @ w" b] by (auto simp: prefix_def)
  then obtain c where c: "(x # a) @ w = [] @ w @ c" by (auto simp: prefix_def)
  with assms have "c = []" unfolding only_at_end_def by blast
  with c show False by simp
qed

lemma find_sub_first: "only_at_end w a \<Longrightarrow> find_sub w (a @ w @ b) = Some (a, b)"
proof (induction a)
  case Nil
  show ?case
  proof (cases "w @ b")
    case Nil
    then show ?thesis by simp
  next
    case (Cons y ys)
    have "prefix w (y # ys)" by (metis Cons prefixI)
    moreover have "drop (length w) (y # ys) = b" by (metis Cons append_eq_conv_conj)
    ultimately show ?thesis unfolding append_Nil Cons by simp
  qed
next
  case (Cons x a)
  from only_at_end_not_prefix[OF Cons.prems, of b] Cons.IH[OF only_at_end_Cons[OF Cons.prems]]
  show ?case by simp
qed

text \<open>\<open>has_pair opn cls s\<close>: \<open>s\<close> holds an opening tag with a closing tag after it.\<close>

definition has_pair :: "jsstring \<Rightarrow> jsstring \<Rightarrow> jsstring \<Rightarrow> bool" where
  "has_pair opn cls s = (\<exists>pre b r. s = pre @ opn @ b @ cls @ r)"


lemma find_tag_None:
  assumes "opn \<noteq> []"
  shows "find_tag opn cls s = None \<longleftrightarrow> \<not> has_pair opn cls s"
proof (induction s)
  case Nil
  show ?case using assms by (auto simp: has_pair_def)
next
  case (Cons x xs)
  have step: "has_pair opn cls (x # xs) \<longleftrightarrow>
          (\<exists>b r. x # xs = opn @ b @ cls @ r) \<or> has_pair opn cls xs"
  proof
    assume "has_pair opn cls (x # xs)"
    then obtain pre b r where e: "x # xs = pre @ opn @ b @ cls @ r" by (auto simp: has_pair_def)
    show "(\<exists>b r. x # xs = opn @ b @ cls @ r) \<or> has_pair opn cls xs"
    proof (cases pre)
      case Nil
      with e show ?thesis by auto
    next
      case (Cons y ys)
      with e have "xs = ys @ opn @ b @ cls @ r" by simp
      then show ?thesis unfolding has_pair_def by blast
    qed
  next
    assume "(\<exists>b r. x # xs = opn @ b @ cls @ r) \<or> has_pair opn cls xs"
    then show "has_pair opn cls (x # xs)"
    proof
      assume "\<exists>b r. x # xs = opn @ b @ cls @ r"
      then obtain b r where "x # xs = [] @ opn @ b @ cls @ r" by auto
      then show ?thesis unfolding has_pair_def by blast
    next
      assume "has_pair opn cls xs"
      then obtain pre b r where "xs = pre @ opn @ b @ cls @ r" by (auto simp: has_pair_def)
      then have "x # xs = (x # pre) @ opn @ b @ cls @ r" by simp
      then show ?thesis unfolding has_pair_def by blast
    qed
  qed
  have here: "(if prefix opn (x # xs) then find_sub cls (drop (length opn) (x # xs)) else None) = None
          \<longleftrightarrow> \<not> (\<exists>b r. x # xs = opn @ b @ cls @ r)"
  proof (cases "prefix opn (x # xs)")
    case False
    then show ?thesis by (auto simp: prefix_def)
  next
    case True
    then have e: "x # xs = opn @ drop (length opn) (x # xs)" by (auto simp: prefix_def)
    have "(\<exists>b r. x # xs = opn @ b @ cls @ r) \<longleftrightarrow> (\<exists>b r. drop (length opn) (x # xs) = b @ cls @ r)"
    proof
      assume "\<exists>b r. x # xs = opn @ b @ cls @ r"
      then obtain b r where "x # xs = opn @ b @ cls @ r" by blast
      then have "drop (length opn) (x # xs) = b @ cls @ r" by simp
      then show "\<exists>b r. drop (length opn) (x # xs) = b @ cls @ r" by blast
    next
      assume "\<exists>b r. drop (length opn) (x # xs) = b @ cls @ r"
      then obtain b r where "drop (length opn) (x # xs) = b @ cls @ r" by blast
      with e have "x # xs = opn @ b @ cls @ r" by simp
      then show "\<exists>b r. x # xs = opn @ b @ cls @ r" by blast
    qed
    with True show ?thesis by (simp add: find_sub_None)
  qed
  show ?case
  proof (cases "if prefix opn (x # xs) then find_sub cls (drop (length opn) (x # xs)) else None")
    case None
    with here have "\<not> (\<exists>b r. x # xs = opn @ b @ cls @ r)" by simp
    with None Cons step show ?thesis by simp
  next
    case (Some br)
    with here have "\<exists>b r. x # xs = opn @ b @ cls @ r" by auto
    with Some step show ?thesis by (auto split: prod.splits)
  qed
qed

lemma find_tag_first:
  assumes "opn \<noteq> []" "only_at_end opn pre" "only_at_end cls b"
  shows "find_tag opn cls (pre @ opn @ b @ cls @ r) = Some (pre, b, r)"
  using assms(2)
proof (induction pre)
  case Nil
  from assms(1) obtain y ys where y: "opn @ b @ cls @ r = y # ys" by (cases opn) auto
  have "prefix opn (y # ys)" unfolding y[symmetric] by simp
  moreover have "find_sub cls (drop (length opn) (y # ys)) = Some (b, r)"
    unfolding y[symmetric] using find_sub_first[OF assms(3), of r] by simp
  ultimately show ?case unfolding append_Nil y by simp
next
  case (Cons x pre)
  from only_at_end_not_prefix[OF Cons.prems, of "b @ cls @ r"]
    Cons.IH[OF only_at_end_Cons[OF Cons.prems]]
  show ?case by simp
qed

lemma search_first_of:
  "search r p s =
     (case first_of (ms r ([], p, s)) of
        Some (cp, p', s') \<Rightarrow> Some ([], take (length s - length s') s, cp, p', s')
      | None \<Rightarrow>
          (case s of
             [] \<Rightarrow> None
           | x # xs \<Rightarrow>
               (case search r (Some x) xs of
                  None \<Rightarrow> None
                | Some (pre, w, cp, p', post) \<Rightarrow> Some (x # pre, w, cp, p', post))))"
proof (cases s)
  case Nil
  then show ?thesis
    by (auto simp: first_of_def split: list.splits dest: ms_hd_suffix)
next
  case (Cons x xs)
  then show ?thesis by (simp add: first_of_def split: list.splits)
qed

lemma search_TAG:
  assumes "opn \<noteq> []" "cls \<noteq> []"
  shows "search (TAG opn cls) p s =
           map_option (\<lambda>(pre, b, r). (pre, opn @ b @ cls, [(1, b)], Some (last cls), r))
             (find_tag opn cls s)"
proof (induction s arbitrary: p)
  case Nil
  show ?case
    using assms by (subst search_first_of) (simp add: first_ms_TAG)
next
  case (Cons x xs)
  show ?case
  proof (cases "if prefix opn (x # xs) then find_sub cls (drop (length opn) (x # xs)) else None")
    case None
    then show ?thesis
      using assms Cons[of "Some x"]
      by (subst search_first_of) (simp add: first_ms_TAG split: option.splits)
  next
    case (Some br)
    obtain b r where br: "br = (b, r)" by (cases br)
    from Some have p: "prefix opn (x # xs)"
      and f: "find_sub cls (drop (length opn) (x # xs)) = Some (b, r)"
      by (auto simp: br split: if_splits)
    from p have "x # xs = opn @ drop (length opn) (x # xs)" by (auto simp: prefix_def)
    with find_sub_Some[OF f] have e: "x # xs = (opn @ b @ cls) @ r" by simp
    have t: "take (length (x # xs) - length r) (x # xs) = opn @ b @ cls"
      by (subst (1 2) e) (simp del: append_assoc)
    show ?thesis
      using assms Some t
      by (subst search_first_of) (simp add: first_ms_TAG br del: find_sub.simps)
  qed
qed


lemma match_all_TAG:
  assumes "opn \<noteq> []" "cls \<noteq> []"
  shows "match_all (TAG opn cls) p s =
           (case find_tag opn cls s of
              None \<Rightarrow> []
            | Some (pre, b, r) \<Rightarrow>
                (pre, opn @ b @ cls, [(1, b)], Some (last cls), r)
                # match_all (TAG opn cls) (Some (last cls)) r)"
  using assms
  by (subst match_all.simps) (simp add: search_TAG split: option.splits)


lemma only_at_end_fresh:
  assumes "w = c # w'" "c \<notin> set w'" "c \<notin> set a"
  shows "only_at_end w a"
  unfolding only_at_end_def
proof (intro allI impI)
  fix a' b'
  assume e: "a @ w = a' @ w @ b'"
  have "takeWhile (\<lambda>x. x \<noteq> c) (a @ w) = a @ takeWhile (\<lambda>x. x \<noteq> c) w"
    using assms(3) by (intro takeWhile_append2) auto
  then have "takeWhile (\<lambda>x. x \<noteq> c) (a @ w) = a"
    using assms(1) by simp
  moreover have "length (takeWhile (\<lambda>x. x \<noteq> c) (a' @ w @ b')) \<le> length a'"
  proof (cases "\<forall>x \<in> set a'. x \<noteq> c")
    case True
    then have "takeWhile (\<lambda>x. x \<noteq> c) (a' @ w @ b')
                 = a' @ takeWhile (\<lambda>x. x \<noteq> c) (w @ b')"
      by (intro takeWhile_append2) auto
    then show ?thesis using assms(1) by simp
  next
    case False
    then obtain x where "x \<in> set a'" "\<not> x \<noteq> c" by blast
    then have "takeWhile (\<lambda>x. x \<noteq> c) (a' @ w @ b') = takeWhile (\<lambda>x. x \<noteq> c) a'"
      by (rule takeWhile_append1)
    then show ?thesis using length_takeWhile_le[of "\<lambda>x. x \<noteq> c" a'] by simp
  qed
  ultimately have "length a \<le> length a'" using e by simp
  moreover from e have "length a + length w = length a' + length w + length b'"
    by (metis length_append add.assoc)
  ultimately show "b' = []" by simp
qed

lemma match_all_TAG_prev:
  assumes "opn \<noteq> []" "cls \<noteq> []"
  shows "match_all (TAG opn cls) p s = match_all (TAG opn cls) None s"
  unfolding match_all_TAG[OF assms, of p s] match_all_TAG[OF assms, of None s] ..

subsection \<open>Common pieces of the patterns\<close>

text \<open>\<open>\s*\<close>, \<open>\d+\<close>, and \<open>r{n}\<close> as \<open>n\<close> copies of \<open>r\<close> in sequence.\<close>

definition WS_STAR :: rx where
  "WS_STAR = Rept True 0 (Cls (Pos [Space]))"

definition DIGITS :: rx where
  "DIGITS = Rept True 1 (Cls (Pos [Digit]))"

fun rx_times :: "nat \<Rightarrow> rx \<Rightarrow> rx" where
  "rx_times 0 r = Lit []"
| "rx_times (Suc n) r = Seq r (rx_times n r)"

text \<open>The digits, as \<open>\d\<close> has them.\<close>

definition is_digit :: "nat \<Rightarrow> bool" where
  "is_digit c = (48 \<le> c \<and> c \<le> 57)"

text \<open>The definitions that the simplifier unfolds to run a pattern on a given text.\<close>

lemmas rx_run = js_match_def js_test_def replace_first_def grp_str_def asc_def
  ms.simps(6) ms_rept_numeral js_ws_def js_lt_def Dot_def AnyUnit_def WS_STAR_def DIGITS_def
  trim_def Let_def

subsection \<open>The three kinds of block\<close>



definition TOPIC_OPEN :: jsstring where
  "TOPIC_OPEN = asc ''[TOPIC]''"

definition TOPIC_CLOSE :: jsstring where
  "TOPIC_CLOSE = asc ''[/TOPIC]''"

definition QUOTE_OPEN :: jsstring where
  "QUOTE_OPEN = asc ''[QUOTE]''"

definition QUOTE_CLOSE :: jsstring where
  "QUOTE_CLOSE = asc ''[/QUOTE]''"

lemma QUOTE_tags_nonempty: "QUOTE_OPEN \<noteq> []" "QUOTE_CLOSE \<noteq> []"
  by (simp_all add: QUOTE_OPEN_def QUOTE_CLOSE_def asc_def)

lemma QUOTE_tags_bracket:
  "QUOTE_OPEN = 91 # asc ''QUOTE]''" "QUOTE_CLOSE = 91 # asc ''/QUOTE]''"
  "91 \<notin> set (asc ''QUOTE]'')" "91 \<notin> set (asc ''/QUOTE]'')"
  by (simp_all add: QUOTE_OPEN_def QUOTE_CLOSE_def asc_def)

section \<open>Chat messages and their preprocessing (analyze-wechat)\<close>

text \<open>The callback of the first \<open>filter\<close> of \<open>preprocessMessages\<close>, with its early
  returns in the order of the source; \<open>!msg.content\<close> holds of the empty string.\<close>

definition keepMessage :: "ChatMessage \<Rightarrow> bool" where
  "keepMessage msg =
     (if type msg = T_SYSTEM \<or> type msg = T_RECALL then False
      else if type msg = T_EMOJI \<and> \<not> js_includes (content msg) FW_COLON then False
      else if content msg = [] \<or> trim (content msg) = [] then False
      else if js_includes (senderDisplayName msg) BOT_NAME then False
      else True)"

text \<open>\<open>targetDate\<close> is an optional parameter; \<open>if (targetDate)\<close> holds of a non-empty
  string.\<close>

definition preprocessMessages :: "ChatMessage list \<Rightarrow> jsstring option \<Rightarrow> ChatMessage list" where
  "preprocessMessages msgs targetDate =
     (let filtered = filter keepMessage msgs
      in case targetDate of
           None \<Rightarrow> filtered
         | Some d \<Rightarrow>
             if d \<noteq> [] then filter (\<lambda>msg. startsWith (formattedTime msg) d) filtered
             else filtered)"

text \<open>A message with the given type, content, sender display name and formatted time,
  for the examples.\<close>

definition ex_msg :: "jsstring \<Rightarrow> jsstring \<Rightarrow> jsstring \<Rightarrow> jsstring \<Rightarrow> ChatMessage" where
  "ex_msg ty c name t =
     \<lparr>localId = 1, createTime = 0, formattedTime = t, type = ty, localType = 1,
      content = c, isSend = None, senderUsername = [], senderDisplayName = name,
      source = [], senderAvatarKey = [], emojiMd5 = None\<rparr>"

lemma trim_Nil: "trim [] = []"
  by (simp add: trim_def)

lemma keepMessage_iff:
  "keepMessage m \<longleftrightarrow>
     type m \<noteq> T_SYSTEM \<and> type m \<noteq> T_RECALL
     \<and> \<not> (type m = T_EMOJI \<and> \<not> js_includes (content m) FW_COLON)
     \<and> trim (content m) \<noteq> []
     \<and> \<not> js_includes (senderDisplayName m) BOT_NAME"
  by (auto simp: keepMessage_def trim_Nil)

lemma preprocessMessages_eq:
  "preprocessMessages msgs targetDate =
     filter (\<lambda>m. keepMessage m
                \<and> (case targetDate of None \<Rightarrow> True | Some d \<Rightarrow> startsWith (formattedTime m) d))
       msgs"
proof (cases targetDate)
  case None
  then show ?thesis by (simp add: preprocessMessages_def)
next
  case (Some d)
  then show ?thesis
    by (cases "d = []") (simp_all add: preprocessMessages_def startsWith_def)
qed

text \<open>
  C6. \<open>preprocessMessages\<close> returns a subsequence of its input (elements unmodified, in
  their original order), and keeps exactly the messages whose type is neither the
  system-message nor the recalled-message type, that are not an animated emoji whose
  content lacks the full-width colon, whose content is not empty after trimming, whose
  sender display name does not contain the bot's name, and whose formatted time starts
  with the target date when one is given.
\<close>

theorem preprocessMessages_filter:
  "subseq (preprocessMessages msgs targetDate) msgs \<and>
   preprocessMessages msgs targetDate =
     filter (\<lambda>m. type m \<noteq> T_SYSTEM \<and> type m \<noteq> T_RECALL
                \<and> \<not> (type m = T_EMOJI \<and> \<not> js_includes (content m) FW_COLON)
                \<and> trim (content m) \<noteq> []
                \<and> \<not> js_includes (senderDisplayName m) BOT_NAME
                \<and> (case targetDate of None \<Rightarrow> True | Some d \<Rightarrow> startsWith (formattedTime m) d))
       msgs"
  unfolding preprocessMessages_eq keepMessage_iff by (simp add: conj_assoc)

theorem preprocessMessages_filter_witness:
  "preprocessMessages
     [ex_msg T_SYSTEM (asc ''hi'') (asc ''a'') (asc ''2026-01-16 08:00:00''),
      ex_msg (asc ''t'') (asc ''hi'') (asc ''a'') (asc ''2026-01-16 08:00:01''),
      ex_msg (asc ''t'') (asc '' '') (asc ''a'') (asc ''2026-01-16 08:00:02''),
      ex_msg (asc ''t'') (asc ''yo'') (asc ''a'') (asc ''2026-01-17 08:00:00'')]
     (Some (asc ''2026-01-16''))
   = [ex_msg (asc ''t'') (asc ''hi'') (asc ''a'') (asc ''2026-01-16 08:00:01'')]"
  using preprocessMessages_filter
    [of "[ex_msg T_SYSTEM (asc ''hi'') (asc ''a'') (asc ''2026-01-16 08:00:00''),
          ex_msg (asc ''t'') (asc ''hi'') (asc ''a'') (asc ''2026-01-16 08:00:01''),
          ex_msg (asc ''t'') (asc '' '') (asc ''a'') (asc ''2026-01-16 08:00:02''),
          ex_msg (asc ''t'') (asc ''yo'') (asc ''a'') (asc ''2026-01-17 08:00:00'')]"
        "Some (asc ''2026-01-16'')"]
  by (simp add: ex_msg_def asc_def T_SYSTEM_def T_RECALL_def T_EMOJI_def BOT_NAME_def
        FW_COLON_def trim_def js_ws_def startsWith_def)

section \<open>The HTML report (analyze-wechat)\<close>

subsection \<open>Pieces of HTML\<close>




subsection \<open>The three substitutions of blocks\<close>









subsection \<open>The substitutions of Markdown\<close>










subsection \<open>The page\<close>















subsection \<open>\<open>generateHtmlReport\<close>\<close>




subsection \<open>The substitution of blocks in plain terms\<close>






subsection \<open>Units that a substitution cannot bring in\<close>





































subsection \<open>Reports made of text and blocks\<close>



























subsection \<open>Texts that the substitutions of Markdown leave as they are\<close>






subsection \<open>The items of a statistics block in plain terms\<close>








subsection \<open>The blocks of a report in the page\<close>










section \<open>The journal entry of a daily report (update-journal)\<close>

record GoldQuote =
  quote :: jsstring
  author :: jsstring
  thinking :: jsstring

text \<open>The interface \<open>JournalEntry\<close>.\<close>

record JournalEntry =
  date :: jsstring
  oneSentenceSummary :: jsstring
  topics :: "jsstring list"
  goldQuotes :: "GoldQuote list"
  actionSuggestion :: jsstring
  keyConnectors :: "jsstring list"

subsection \<open>The patterns of \<open>parseDailyReport\<close>\<close>

text \<open>\<^verbatim>\<open>/(\d{4}-\d{2}-\d{2})/\<close> on the path of the report.\<close>

definition DATE_RE :: rx where
  "DATE_RE =
     Grp 1 (Seq (rx_times 4 (Cls (Pos [Digit])))
              (Seq (Lit (asc ''-''))
                 (Seq (rx_times 2 (Cls (Pos [Digit])))
                    (Seq (Lit (asc ''-'')) (rx_times 2 (Cls (Pos [Digit])))))))"

text \<open>\<^verbatim>\<open>/###\s*\d+\.\s*(.+?)(?=\s*\(YUE)/g\<close>, where \<open>YUE\<close> stands for the character U+7EA6.\<close>

definition TOPIC_NAME_RE :: rx where
  "TOPIC_NAME_RE =
     Seq (Lit (asc ''###''))
       (Seq WS_STAR
          (Seq DIGITS
             (Seq (Lit (asc ''.''))
                (Seq WS_STAR
                   (Seq (Grp 1 (Rept False 1 (Cls Dot)))
                      (Look (Seq WS_STAR (Lit (asc ''('' @ [0x7EA6])))))))))"

text \<open>\<^verbatim>\<open>/\[QUOTE\]([\s\S]*?)\[\/QUOTE\]/g\<close>.\<close>

definition QUOTE_BLOCK_RE :: rx where
  "QUOTE_BLOCK_RE = TAG QUOTE_OPEN QUOTE_CLOSE"

text \<open>
  \<^verbatim>\<open>/L(.+?)R\s*DD\s*(.+)$/\<close> on the first line of a block, where \<open>L\<close> and \<open>R\<close> stand for
  the corner brackets U+300C and U+300D and \<open>D\<close> for the dash U+2014.
\<close>

definition QUOTE_LINE_RE :: rx where
  "QUOTE_LINE_RE =
     Seq (Lit [0x300C])
       (Seq (Grp 1 (Rept False 1 (Cls Dot)))
          (Seq (Lit [0x300D])
             (Seq WS_STAR
                (Seq (Lit [0x2014, 0x2014])
                   (Seq WS_STAR
                      (Seq (Grp 2 (Rept True 1 (Cls Dot))) (Eol False)))))))"

text \<open>
  \<^verbatim>\<open>/\*\*B TT:\*\*\s*(.+)$/m\<close> on the whole block, where \<open>B\<close> stands for the light bulb
  U+1F4A1 (the surrogates D83D DCA1) and \<open>TT\<close> for U+601D U+8003.
\<close>

definition THINKING_MARK :: jsstring where
  "THINKING_MARK = asc ''**'' @ [0xD83D, 0xDCA1] @ asc '' '' @ [0x601D, 0x8003] @ asc '':**''"

definition THINKING_RE :: rx where
  "THINKING_RE =
     Seq (Lit THINKING_MARK) (Seq WS_STAR (Seq (Grp 1 (Rept True 1 (Cls Dot))) (Eol True)))"

text \<open>\<^verbatim>\<open>/\[TOPIC\][\s\S]*?###\s*\d+\.\s*(.+?)(?=\n|\[\/TOPIC\])/\<close>.\<close>

definition FIRST_TOPIC_RE :: rx where
  "FIRST_TOPIC_RE =
     Seq (Lit (asc ''[TOPIC]''))
       (Seq (Rept False 0 (Cls AnyUnit))
          (Seq (Lit (asc ''###''))
             (Seq WS_STAR
                (Seq DIGITS
                   (Seq (Lit (asc ''.''))
                      (Seq WS_STAR
                         (Seq (Grp 1 (Rept False 1 (Cls Dot)))
                            (Look (Alt (Lit [10]) (Lit (asc ''[/TOPIC]''))))))))))) "

text \<open>
  \<^verbatim>\<open>/##\s*TITLE[\s\S]*?$/\<close> and \<^verbatim>\<open>/##\s*TITLE/\<close>, where \<open>TITLE\<close> stands for the heading of
  the section of the daily action, U+516D U+3001 U+6BCF U+65E5 U+884C U+52A8 U+5EFA U+8BAE.
\<close>

definition ACTION_TITLE :: jsstring where
  "ACTION_TITLE = [0x516D, 0x3001, 0x6BCF, 0x65E5, 0x884C, 0x52A8, 0x5EFA, 0x8BAE]"

definition ACTION_RE :: rx where
  "ACTION_RE =
     Seq (Lit (asc ''##''))
       (Seq WS_STAR (Seq (Lit ACTION_TITLE) (Seq (Rept False 0 (Cls AnyUnit)) (Eol False))))"

definition ACTION_HEAD_RE :: rx where
  "ACTION_HEAD_RE = Seq (Lit (asc ''##'')) (Seq WS_STAR (Lit ACTION_TITLE))"

text \<open>
  \<^verbatim>\<open>/###\s*S\s*KKKKK[\s\S]*?(?=###|##|\[|$)/\<close>, where \<open>S\<close> stands for the star U+1F31F (the
  surrogates D83C DF1F) and \<open>KKKKK\<close> for U+5173 U+952E U+8FDE U+63A5 U+8005.
\<close>

definition CONNECTORS_RE :: rx where
  "CONNECTORS_RE =
     Seq (Lit (asc ''###''))
       (Seq WS_STAR
          (Seq (Lit [0xD83C, 0xDF1F])
             (Seq WS_STAR
                (Seq (Lit [0x5173, 0x952E, 0x8FDE, 0x63A5, 0x8005])
                   (Seq (Rept False 0 (Cls AnyUnit))
                      (Look (Alt (Lit (asc ''###''))
                               (Alt (Lit (asc ''##'')) (Alt (Lit (asc ''['')) (Eol False))))))))))"

text \<open>\<^verbatim>\<open>/\*\*(.+?)\*\*/g\<close> and \<^verbatim>\<open>/\*\*/g\<close>.\<close>

definition BOLD_RE :: rx where
  "BOLD_RE = Seq (Lit (asc ''**'')) (Seq (Grp 1 (Rept False 1 (Cls Dot))) (Lit (asc ''**'')))"

definition STARS_RE :: rx where
  "STARS_RE = Lit (asc ''**'')"

subsection \<open>\<open>parseDailyReport\<close>\<close>

text \<open>The matched text \<open>m[0]\<close>.\<close>

fun whole :: "rmatch \<Rightarrow> jsstring" where
  "whole (pre, w, cp, p, post) = w"

text \<open>
  The body of the loop over the quote blocks, on the content \<open>block[1]\<close> of a block:
  the quote that the block adds, if any.
\<close>

definition quoteOfBlock :: "jsstring \<Rightarrow> GoldQuote option" where
  "quoteOfBlock blockContent =
     (let line1 = (case js_split 10 (trim blockContent) of [] \<Rightarrow> [] | l # ls \<Rightarrow> l);
          quoteMatch = js_match QUOTE_LINE_RE line1;
          thinkingMatch = js_match THINKING_RE blockContent
      in case quoteMatch of
           None \<Rightarrow> None
         | Some q \<Rightarrow>
             Some \<lparr>quote = trim (grp_str q 1),
                   author = trim (grp_str q 2),
                   thinking = (case thinkingMatch of
                                 None \<Rightarrow> []
                               | Some t \<Rightarrow> trim (grp_str t 1))\<rparr>)"

text \<open>The gold quotes of a report: the loop over \<open>content.matchAll\<close> of the quote blocks.\<close>

definition goldQuotesOf :: "jsstring \<Rightarrow> GoldQuote list" where
  "goldQuotesOf report =
     List.map_filter quoteOfBlock
       (map (\<lambda>block. grp_str block 1) (match_all QUOTE_BLOCK_RE None report))"

text \<open>The fallback summary, U+793E U+7FA4 U+6DF1 U+5EA6 U+63A2 U+8BA8 U+4E0E U+77E5 U+8BC6
  U+5206 U+4EAB, and the separator of quote and author, a dash pair between blanks.\<close>

definition DEFAULT_SUMMARY :: jsstring where
  "DEFAULT_SUMMARY =
     [0x793E, 0x7FA4, 0x6DF1, 0x5EA6, 0x63A2, 0x8BA8, 0x4E0E, 0x77E5, 0x8BC6, 0x5206, 0x4EAB]"

definition QUOTE_SEP :: jsstring where
  "QUOTE_SEP = [32, 0x2014, 0x2014, 32]"

definition summaryOf :: "jsstring \<Rightarrow> GoldQuote list \<Rightarrow> jsstring" where
  "summaryOf report quotes =
     (case quotes of
        q # qs \<Rightarrow>
          (let s = quote q @ QUOTE_SEP @ author q
           in if length s > 50 then substring0 48 s @ asc ''...'' else s)
      | [] \<Rightarrow>
          (case js_match FIRST_TOPIC_RE report of
             None \<Rightarrow> DEFAULT_SUMMARY
           | Some topicMatches \<Rightarrow>
               if grp_str topicMatches 1 \<noteq> [] then trim (grp_str topicMatches 1)
               else DEFAULT_SUMMARY))"

text \<open>
  \<open>parseDailyReport\<close>: \<open>file\<close> is the content of the file at \<open>reportPath\<close>, None when the
  file does not exist. \<open>[...new Set(keyConnectors)].slice(0, 3)\<close> keeps the first
  occurrence of each name.
\<close>

definition parseDailyReport :: "jsstring option \<Rightarrow> jsstring \<Rightarrow> JournalEntry option" where
  "parseDailyReport file reportPath =
     (case file of
        None \<Rightarrow> None
      | Some report \<Rightarrow>
          (let quotes = goldQuotesOf report
           in Some
             \<lparr>date = (case js_match DATE_RE reportPath of
                        None \<Rightarrow> asc ''unknown''
                      | Some dateMatch \<Rightarrow> grp_str dateMatch 1),
              oneSentenceSummary = summaryOf report quotes,
              topics = map (\<lambda>m. trim (grp_str m 1)) (match_all TOPIC_NAME_RE None report),
              goldQuotes = quotes,
              actionSuggestion =
                (case js_match ACTION_RE report of
                   None \<Rightarrow> []
                 | Some actionMatch \<Rightarrow>
                     trim (replace_first ACTION_HEAD_RE (\<lambda>m. []) (whole actionMatch))),
              keyConnectors =
                (case js_match CONNECTORS_RE report of
                   None \<Rightarrow> []
                 | Some connectorsMatch \<Rightarrow>
                     take 3 (rev (remdups (rev
                       (map (\<lambda>c. trim (replace_all STARS_RE (\<lambda>m. []) None (whole c)))
                          (match_all BOLD_RE None (whole connectorsMatch)))))))\<rparr>))"

lemma goldQuotesOf_none:
  "\<not> has_pair QUOTE_OPEN QUOTE_CLOSE report \<Longrightarrow> goldQuotesOf report = []"
  unfolding goldQuotesOf_def QUOTE_BLOCK_RE_def
  using find_tag_None[OF QUOTE_tags_nonempty(1), of QUOTE_CLOSE report]
  by (subst match_all_TAG[OF QUOTE_tags_nonempty]) (simp add: List.map_filter_simps)

lemma goldQuotesOf_block:
  assumes "only_at_end QUOTE_OPEN pre" "only_at_end QUOTE_CLOSE b"
  shows "goldQuotesOf (pre @ QUOTE_OPEN @ b @ QUOTE_CLOSE @ r) =
           (case quoteOfBlock b of None \<Rightarrow> [] | Some q \<Rightarrow> [q]) @ goldQuotesOf r"
  unfolding goldQuotesOf_def QUOTE_BLOCK_RE_def
  using find_tag_first[OF QUOTE_tags_nonempty(1) assms, of r]
    match_all_TAG_prev[OF QUOTE_tags_nonempty, of "Some (last QUOTE_CLOSE)" r]
  by (subst match_all_TAG[OF QUOTE_tags_nonempty])
     (simp add: List.map_filter_simps grp_str_def split: option.splits)

text \<open>
  C8. The gold quotes of the entry are those of the quote blocks of the report, in the
  order of the blocks: a report without an opening \<open>[QUOTE]\<close> followed by a closing
  \<open>[/QUOTE]\<close> has none; otherwise the first block runs from the first opening tag to the
  first closing tag after it, it adds one record when its first line matches the quote
  line pattern and nothing when it does not, and the rest of the report after the block
  adds its own. The record holds the trimmed texts of the two groups of the quote line
  and the trimmed text after the thinking mark, the empty string when the block has no
  thinking line.
\<close>

theorem goldQuotes_spec:
  "map_option goldQuotes (parseDailyReport (Some report) path) = Some (goldQuotesOf report)
   \<and> (\<not> has_pair QUOTE_OPEN QUOTE_CLOSE report \<longrightarrow> goldQuotesOf report = [])
   \<and> (only_at_end QUOTE_OPEN pre \<and> only_at_end QUOTE_CLOSE b \<longrightarrow>
        goldQuotesOf (pre @ QUOTE_OPEN @ b @ QUOTE_CLOSE @ r) =
          (case quoteOfBlock b of None \<Rightarrow> [] | Some q \<Rightarrow> [q]) @ goldQuotesOf r)
   \<and> quoteOfBlock b =
        (case js_match QUOTE_LINE_RE (case js_split 10 (trim b) of [] \<Rightarrow> [] | l # ls \<Rightarrow> l) of
           None \<Rightarrow> None
         | Some m \<Rightarrow>
             Some \<lparr>quote = trim (grp_str m 1), author = trim (grp_str m 2),
                   thinking = (case js_match THINKING_RE b of
                                 None \<Rightarrow> []
                               | Some t \<Rightarrow> trim (grp_str t 1))\<rparr>)"
  using goldQuotesOf_none[of report] goldQuotesOf_block[of pre b r]
  by (simp add: parseDailyReport_def Let_def quoteOfBlock_def)

text \<open>A quote block for the examples: a quote line of \<open>abc\<close> by \<open>Bob\<close>, an empty line and a
  thinking line.\<close>

definition ex_block :: jsstring where
  "ex_block = [10, 0x300C] @ asc ''abc'' @ [0x300D] @ asc '' '' @ [0x2014, 0x2014] @ asc '' Bob''
              @ [10, 10] @ THINKING_MARK @ asc '' because'' @ [10]"

lemma quoteOfBlock_ex:
  "quoteOfBlock ex_block = Some \<lparr>quote = asc ''abc'', author = asc ''Bob'', thinking = asc ''because''\<rparr>"
  by (simp add: quoteOfBlock_def ex_block_def QUOTE_LINE_RE_def THINKING_RE_def THINKING_MARK_def
        rx_run)

lemma quoteOfBlock_ex2: "quoteOfBlock (asc ''zz'') = None"
  by (simp add: quoteOfBlock_def QUOTE_LINE_RE_def THINKING_RE_def THINKING_MARK_def rx_run)

theorem goldQuotes_spec_witness:
  "goldQuotesOf (asc ''x '' @ QUOTE_OPEN @ ex_block @ QUOTE_CLOSE
                 @ (asc '' y '' @ QUOTE_OPEN @ asc ''zz'' @ QUOTE_CLOSE @ asc ''.''))
     = [\<lparr>quote = asc ''abc'', author = asc ''Bob'', thinking = asc ''because''\<rparr>]"
proof -
  have o: "QUOTE_OPEN = 91 # asc ''QUOTE]''" "QUOTE_CLOSE = 91 # asc ''/QUOTE]''"
    "91 \<notin> set (asc ''QUOTE]'')" "91 \<notin> set (asc ''/QUOTE]'')"
    by (simp_all add: QUOTE_OPEN_def QUOTE_CLOSE_def asc_def)
  have f: "91 \<notin> set (asc ''x '')" "91 \<notin> set ex_block" "91 \<notin> set (asc '' y '')"
    "91 \<notin> set (asc ''zz'')"
    by (simp_all add: asc_def ex_block_def THINKING_MARK_def)
  have 1: "only_at_end QUOTE_OPEN (asc ''x '') \<and> only_at_end QUOTE_CLOSE ex_block"
    using only_at_end_fresh[OF o(1) o(3) f(1)] only_at_end_fresh[OF o(2) o(4) f(2)] by simp
  have 2: "only_at_end QUOTE_OPEN (asc '' y '') \<and> only_at_end QUOTE_CLOSE (asc ''zz'')"
    using only_at_end_fresh[OF o(1) o(3) f(3)] only_at_end_fresh[OF o(2) o(4) f(4)] by simp
  have "find_tag QUOTE_OPEN QUOTE_CLOSE (asc ''.'') = None"
    by (simp add: QUOTE_OPEN_def asc_def)
  then have 3: "\<not> has_pair QUOTE_OPEN QUOTE_CLOSE (asc ''.'')"
    using find_tag_None[OF QUOTE_tags_nonempty(1)] by simp
  from goldQuotes_spec[of "asc ''.''" "[]" "asc ''x ''" ex_block
      "asc '' y '' @ QUOTE_OPEN @ asc ''zz'' @ QUOTE_CLOSE @ asc ''.''"]
    goldQuotes_spec[of "asc ''.''" "[]" "asc '' y ''" "asc ''zz''" "asc ''.''"] 1 2 3
  show ?thesis by (simp add: quoteOfBlock_ex quoteOfBlock_ex2)
qed

text \<open>Reports for the examples: one with the quote block above, one with a quote of 48
  units (55 units with the separator and the author).\<close>

definition ex_report :: jsstring where
  "ex_report = asc ''x '' @ QUOTE_OPEN @ ex_block @ QUOTE_CLOSE @ asc ''.''"

definition ex_long_block :: jsstring where
  "ex_long_block =
     [0x300C] @ asc ''aaaaaaaaaaaaaaaaaaaaaaaaaaaaaaaaaaaaaaaaaaaaaaaa'' @ [0x300D] @ asc '' ''
     @ [0x2014, 0x2014] @ asc '' Bob''"

definition ex_report_long :: jsstring where
  "ex_report_long = [] @ QUOTE_OPEN @ ex_long_block @ QUOTE_CLOSE @ asc ''.''"

lemma goldQuotes_parse:
  "map_option goldQuotes (parseDailyReport (Some report) path) = Some (goldQuotesOf report)"
  by (simp add: parseDailyReport_def Let_def)

lemma no_pair_dot: "\<not> has_pair QUOTE_OPEN QUOTE_CLOSE (asc ''.'')"
proof -
  have "find_tag QUOTE_OPEN QUOTE_CLOSE (asc ''.'') = None"
    by (simp add: QUOTE_OPEN_def asc_def)
  then show ?thesis using find_tag_None[OF QUOTE_tags_nonempty(1)] by simp
qed

lemma goldQuotesOf_ex_report:
  "goldQuotesOf ex_report
     = [\<lparr>quote = asc ''abc'', author = asc ''Bob'', thinking = asc ''because''\<rparr>]"
proof -
  have "91 \<notin> set (asc ''x '')" "91 \<notin> set ex_block"
    by (simp_all add: asc_def ex_block_def THINKING_MARK_def)
  then have "only_at_end QUOTE_OPEN (asc ''x '')" "only_at_end QUOTE_CLOSE ex_block"
    using only_at_end_fresh QUOTE_tags_bracket by blast+
  from goldQuotesOf_block[OF this, of "asc ''.''"] goldQuotesOf_none[OF no_pair_dot]
  show ?thesis by (simp add: ex_report_def quoteOfBlock_ex)
qed

lemma goldQuotesOf_ex_report_long:
  "goldQuotesOf ex_report_long
     = [\<lparr>quote = asc ''aaaaaaaaaaaaaaaaaaaaaaaaaaaaaaaaaaaaaaaaaaaaaaaa'', author = asc ''Bob'',
         thinking = []\<rparr>]"
proof -
  have q: "quoteOfBlock ex_long_block
     = Some \<lparr>quote = asc ''aaaaaaaaaaaaaaaaaaaaaaaaaaaaaaaaaaaaaaaaaaaaaaaa'', author = asc ''Bob'',
         thinking = []\<rparr>"
    by (simp add: quoteOfBlock_def ex_long_block_def QUOTE_LINE_RE_def THINKING_RE_def
          THINKING_MARK_def rx_run)
  have "91 \<notin> set []" "91 \<notin> set ex_long_block"
    by (simp_all add: asc_def ex_long_block_def)
  then have "only_at_end QUOTE_OPEN []" "only_at_end QUOTE_CLOSE ex_long_block"
    using only_at_end_fresh QUOTE_tags_bracket by blast+
  from goldQuotesOf_block[OF this, of "asc ''.''"] goldQuotesOf_none[OF no_pair_dot]
  show ?thesis by (simp add: ex_report_long_def q)
qed

lemma goldQuotesOf_ex_none: "goldQuotesOf (asc ''no quotes'') = []"
proof -
  have "find_tag QUOTE_OPEN QUOTE_CLOSE (asc ''no quotes'') = None"
    by (simp add: QUOTE_OPEN_def asc_def)
  then have "\<not> has_pair QUOTE_OPEN QUOTE_CLOSE (asc ''no quotes'')"
    using find_tag_None[OF QUOTE_tags_nonempty(1)] by simp
  then show ?thesis by (rule goldQuotesOf_none)
qed

subsection \<open>What the topic pattern finds\<close>

text \<open>
  The pattern of the fallback summary, in plain terms. A title may end before a line
  feed or before the closing tag of a topic (\<open>title_end\<close>). \<open>title_rest s\<close> is the
  shortest run of units other than line terminators at the start of \<open>s\<close> after which a
  title may end, and \<open>title_at s\<close> is the shortest such run of at least one unit: what
  \<^verbatim>\<open>(.+?)(?=\n|\[\/TOPIC\])\<close> takes at the start of \<open>s\<close>.
\<close>

definition title_end :: "jsstring \<Rightarrow> bool" where
  "title_end s = (prefix [10] s \<or> prefix (asc ''[/TOPIC]'') s)"

fun title_rest :: "jsstring \<Rightarrow> jsstring option" where
  "title_rest [] = None"
| "title_rest (x # xs) =
     (if title_end (x # xs) then Some []
      else if js_lt x then None
      else map_option ((#) x) (title_rest xs))"

definition title_at :: "jsstring \<Rightarrow> jsstring option" where
  "title_at s =
     (case s of
        [] \<Rightarrow> None
      | x # xs \<Rightarrow> if js_lt x then None else map_option ((#) x) (title_rest xs))"

text \<open>
  \<open>title_after s\<close> is what \<^verbatim>\<open>\s*(.+?)(?=\n|\[\/TOPIC\])\<close> takes as the title at the start
  of \<open>s\<close>: the title that starts after the longest run of white space after which there
  is one (white space includes the line feed, so the title may be on a later line).
\<close>

fun title_after :: "jsstring \<Rightarrow> jsstring option" where
  "title_after [] = None"
| "title_after (x # xs) =
     (if js_ws x
      then (case title_after xs of Some u \<Rightarrow> Some u | None \<Rightarrow> title_at (x # xs))
      else title_at (x # xs))"

text \<open>
  \<open>heading_at s\<close>: \<open>s\<close> starts with a numbered heading, that is \<open>###\<close>, white space if
  any, one digit or more, a dot, and then a title; the result is the title.
  \<open>first_heading s\<close> is the title of the first numbered heading in \<open>s\<close>.
\<close>

definition heading_at :: "jsstring \<Rightarrow> jsstring option" where
  "heading_at s =
     (if prefix (asc ''###'') s
      then (let r1 = dropWhile js_ws (drop 3 s);
                r2 = dropWhile is_digit r1
            in if takeWhile is_digit r1 \<noteq> [] \<and> prefix (asc ''.'') r2
               then title_after (drop 1 r2) else None)
      else None)"

fun first_heading :: "jsstring \<Rightarrow> jsstring option" where
  "first_heading [] = heading_at []"
| "first_heading (x # xs) =
     (case heading_at (x # xs) of Some u \<Rightarrow> Some u | None \<Rightarrow> first_heading xs)"

text \<open>
  \<open>topic_title report\<close>: the title of the first numbered heading after the first
  opening tag \<open>[TOPIC]\<close> of the report. Nothing makes the heading lie before the
  closing tag of that topic.
\<close>

definition topic_title :: "jsstring \<Rightarrow> jsstring option" where
  "topic_title report =
     (case find_sub TOPIC_OPEN report of
        None \<Rightarrow> None
      | Some (pre, r) \<Rightarrow> first_heading r)"

abbreviation TITLE_LOOK :: rx where
  "TITLE_LOOK \<equiv> Look (Alt (Lit [10]) (Lit (asc ''[/TOPIC]'')))"

abbreviation TITLE_RE :: rx where
  "TITLE_RE \<equiv> Seq (Grp 1 (Rept False 1 (Cls Dot))) TITLE_LOOK"

abbreviation HEADING_RE :: rx where
  "HEADING_RE \<equiv>
     Seq (Lit (asc ''###''))
       (Seq WS_STAR (Seq DIGITS (Seq (Lit (asc ''.'')) (Seq WS_STAR TITLE_RE))))"

lemma ms_title_look:
  "ms TITLE_LOOK (cp, p, s) = (if title_end s then [(cp, p, s)] else [])"
  by (auto simp: title_end_def asc_def)

lemma ms_lazy_dot:
  "ms (Rept False 0 (Cls Dot)) (cp, p, s) =
     (cp, p, s) # (case s of [] \<Rightarrow> []
                   | x # xs \<Rightarrow> if js_lt x then []
                               else ms (Rept False 0 (Cls Dot)) (cp, Some x, xs))"
  by (subst ms.simps(6)) (simp add: Dot_def js_lt_def split: list.splits)

lemma title_end_Nil [simp]: "\<not> title_end []"
  by (simp add: title_end_def asc_def)

lemma caps_lazy_dot_look:
  "map_option fst (first_of (concat (map (\<lambda>(cp', p', s').
              ms TITLE_LOOK ((k, take (length (acc @ s) - length s') (acc @ s)) # cp', p', s'))
            (ms (Rept False 0 (Cls Dot)) (cp, p, s)))))
   = map_option (\<lambda>b. (k, acc @ b) # cp) (title_rest s)"
proof (induction s arbitrary: p acc)
  case Nil
  show ?case by (subst ms_lazy_dot) (simp add: ms_title_look del: ms.simps)
next
  case (Cons x xs)
  have e: "acc @ x # xs = (acc @ [x]) @ xs" by simp
  show ?case
  proof (cases "title_end (x # xs)")
    case True
    then show ?thesis by (subst ms_lazy_dot) (simp add: ms_title_look del: ms.simps)
  next
    case False
    then show ?thesis
      using Cons[of "acc @ [x]" "Some x"] unfolding e
      by (subst ms_lazy_dot) (simp add: ms_title_look option.map_comp comp_def del: ms.simps)
  qed
qed

lemma caps_title:
  "map_option fst (first_of (ms TITLE_RE (cp, p, s)))
     = map_option (\<lambda>u. (1, u) # cp) (title_at s)"
proof (cases s)
  case Nil
  then show ?thesis by (simp add: title_at_def)
next
  case (Cons x xs)
  show ?thesis
  proof (cases "js_lt x")
    case True
    then show ?thesis using Cons by (simp add: title_at_def Dot_def js_lt_def)
  next
    case False
    have m: "ms (Rept False 1 (Cls Dot)) (cp, p, x # xs)
               = ms (Rept False 0 (Cls Dot)) (cp, Some x, xs)"
      using False by (simp add: Dot_def js_lt_def del: ms.simps(6))
    show ?thesis
      unfolding Cons ms_seq_grp m
      using caps_lazy_dot_look[of 1 "[x]" xs cp "Some x"] False
      by (simp add: title_at_def option.map_comp comp_def del: ms.simps)
  qed
qed

lemma ms_ws_star:
  "ms WS_STAR (cp, p, s) =
     (case s of
        [] \<Rightarrow> [(cp, p, [])]
      | x # xs \<Rightarrow> if js_ws x then ms WS_STAR (cp, Some x, xs) @ [(cp, p, x # xs)]
                  else [(cp, p, x # xs)])"
  unfolding WS_STAR_def by (subst ms.simps(6)) (simp split: list.splits)

lemma caps_title_after:
  "map_option fst (first_of (ms (Seq WS_STAR TITLE_RE) (cp, p, s)))
     = map_option (\<lambda>u. (1, u) # cp) (title_after s)"
proof (induction s arbitrary: p)
  case Nil
  have "ms (Seq WS_STAR TITLE_RE) (cp, p, []) = ms TITLE_RE (cp, p, [])"
    unfolding ms.simps(3) by (subst ms_ws_star) simp
  then show ?case using caps_title[of cp p "[]"] by (simp add: title_at_def del: ms.simps)
next
  case (Cons x xs)
  let ?A = "first_of (ms (Seq WS_STAR TITLE_RE) (cp, Some x, xs))"
  let ?B = "first_of (ms TITLE_RE (cp, p, x # xs))"
  have A: "map_option fst ?A = map_option (\<lambda>u. (1, u) # cp) (title_after xs)"
    by (rule Cons)
  have B: "map_option fst ?B = map_option (\<lambda>u. (1, u) # cp) (title_at (x # xs))"
    by (rule caps_title)
  show ?case
  proof (cases "js_ws x")
    case True
    have "ms (Seq WS_STAR TITLE_RE) (cp, p, x # xs)
            = ms (Seq WS_STAR TITLE_RE) (cp, Some x, xs) @ ms TITLE_RE (cp, p, x # xs)"
      unfolding ms.simps(3) using True by (subst ms_ws_star) simp
    then have e: "first_of (ms (Seq WS_STAR TITLE_RE) (cp, p, x # xs))
                    = (case ?A of None \<Rightarrow> ?B | Some y \<Rightarrow> Some y)"
      by (simp only: first_of_simps)
    show ?thesis
    proof (cases ?A)
      case None
      from A have "title_after xs = None" unfolding None by simp
      then show ?thesis unfolding e None using B True by simp
    next
      case (Some y)
      from A have "map_option (\<lambda>u. (1, u) # cp) (title_after xs) = Some (fst y)"
        unfolding Some by simp
      then obtain u where u: "title_after xs = Some u" "fst y = (1, u) # cp"
        by (cases "title_after xs") auto
      show ?thesis unfolding e Some using u True by simp
    qed
  next
    case False
    have "ms (Seq WS_STAR TITLE_RE) (cp, p, x # xs) = ms TITLE_RE (cp, p, x # xs)"
      unfolding ms.simps(3) using False by (subst ms_ws_star) simp
    then show ?thesis using B False by (simp del: ms.simps)
  qed
qed

lemma cls_digit: "(\<lambda>x. in_cset x (Pos [Digit])) = is_digit"
  by (simp add: fun_eq_iff is_digit_def)

lemma cls_space: "(\<lambda>x. in_cset x (Pos [Space])) = js_ws"
  by (simp add: fun_eq_iff)

lemma ws_not_digit: "js_ws x \<Longrightarrow> \<not> is_digit x"
  by (auto simp: js_ws_def is_digit_def)

lemma ms_dot_then:
  "ms (Seq (Lit (asc ''.'')) r) (cp, p, s) =
     (if prefix (asc ''.'') s then ms r (cp, Some 46, drop 1 s) else [])"
  by (simp add: asc_def)

lemma ms_hashes_then:
  "ms (Seq (Lit (asc ''###'')) r) (cp, p, s) =
     (if prefix (asc ''###'') s then ms r (cp, Some 35, drop 3 s) else [])"
  by (simp add: asc_def eval_nat_numeral)

lemma ms_digits_then:
  assumes "\<And>cp p x xs. is_digit x \<Longrightarrow> ms r (cp, p, x # xs) = []"
  shows "ms (Seq DIGITS r) (cp, p, s) =
           (if takeWhile is_digit s \<noteq> []
            then ms r (cp, Some (last (takeWhile is_digit s)), dropWhile is_digit s)
            else [])"
proof -
  have f: "\<And>cp p x xs. in_cset x (Pos [Digit]) \<Longrightarrow> ms r (cp, p, x # xs) = []"
    using assms by (simp add: is_digit_def)
  have e: "1 \<le> length (takeWhile is_digit s) \<longleftrightarrow> takeWhile is_digit s \<noteq> []"
    by (cases "takeWhile is_digit s") simp_all
  have "concat (map (ms r) (ms (Rept True 1 (Cls (Pos [Digit]))) (cp, p, s))) =
          (if 1 \<le> length (takeWhile (\<lambda>x. in_cset x (Pos [Digit])) s)
           then ms r (cp, (if takeWhile (\<lambda>x. in_cset x (Pos [Digit])) s = [] then p
                           else Some (last (takeWhile (\<lambda>x. in_cset x (Pos [Digit])) s))),
                      dropWhile (\<lambda>x. in_cset x (Pos [Digit])) s)
           else [])"
    by (rule ms_rept_greedy_cls) (rule f)
  then show ?thesis
    unfolding ms.simps(3) DIGITS_def cls_digit e by (simp del: ms.simps)
qed

lemma ms_ws_then:
  assumes "\<And>cp p x xs. js_ws x \<Longrightarrow> ms r (cp, p, x # xs) = []"
  shows "ms (Seq WS_STAR r) (cp, p, s) =
           ms r (cp, (if takeWhile js_ws s = [] then p else Some (last (takeWhile js_ws s))),
                 dropWhile js_ws s)"
proof -
  have f: "\<And>cp p x xs. in_cset x (Pos [Space]) \<Longrightarrow> ms r (cp, p, x # xs) = []"
    using assms by simp
  have "concat (map (ms r) (ms (Rept True 0 (Cls (Pos [Space]))) (cp, p, s))) =
          ms r (cp, (if takeWhile (\<lambda>x. in_cset x (Pos [Space])) s = [] then p
                     else Some (last (takeWhile (\<lambda>x. in_cset x (Pos [Space])) s))),
                dropWhile (\<lambda>x. in_cset x (Pos [Space])) s)"
    by (rule ms_star_greedy_cls) (rule f)
  then show ?thesis
    unfolding ms.simps(3) WS_STAR_def cls_space .
qed

lemma caps_heading:
  "map_option fst (first_of (ms HEADING_RE (cp, p, s)))
     = map_option (\<lambda>u. (1, u) # cp) (heading_at s)"
proof -
  let ?X = "Seq (Lit (asc ''.'')) (Seq WS_STAR TITLE_RE)"
  let ?Y = "Seq DIGITS ?X"
  have fX: "\<And>cp p x xs. is_digit x \<Longrightarrow> ms ?X (cp, p, x # xs) = []"
    unfolding ms_dot_then by (simp add: asc_def is_digit_def)
  have Y: "\<And>cp p s. ms ?Y (cp, p, s) =
           (if takeWhile is_digit s \<noteq> []
            then ms ?X (cp, Some (last (takeWhile is_digit s)), dropWhile is_digit s)
            else [])"
    by (rule ms_digits_then) (rule fX)
  have fY: "\<And>cp p x xs. js_ws x \<Longrightarrow> ms ?Y (cp, p, x # xs) = []"
    unfolding Y by (simp add: ws_not_digit)
  have Z: "\<And>cp p s. ms (Seq WS_STAR ?Y) (cp, p, s) =
            ms ?Y (cp, (if takeWhile js_ws s = [] then p else Some (last (takeWhile js_ws s))),
                   dropWhile js_ws s)"
    by (rule ms_ws_then) (rule fY)
  show ?thesis
    unfolding ms_hashes_then Z Y ms_dot_then heading_at_def Let_def
    using caps_title_after by (simp del: ms.simps)
qed

lemma ms_lazy_any_then:
  "ms (Seq (Rept False 0 (Cls AnyUnit)) r) (cp, p, s) =
     ms r (cp, p, s)
     @ (case s of [] \<Rightarrow> [] | x # xs \<Rightarrow> ms (Seq (Rept False 0 (Cls AnyUnit)) r) (cp, Some x, xs))"
  unfolding ms.simps(3) by (subst ms_lazy_any) (simp split: list.splits del: ms.simps)

lemma caps_first_heading:
  "map_option fst (first_of (ms (Seq (Rept False 0 (Cls AnyUnit)) HEADING_RE) (cp, p, s)))
     = map_option (\<lambda>u. (1, u) # cp) (first_heading s)"
proof (induction s arbitrary: p)
  case Nil
  show ?case
    using caps_heading[of cp p "[]"]
    by (subst ms_lazy_any_then) (simp del: ms.simps)
next
  case (Cons x xs)
  let ?A = "first_of (ms HEADING_RE (cp, p, x # xs))"
  have A: "map_option fst ?A = map_option (\<lambda>u. (1, u) # cp) (heading_at (x # xs))"
    by (rule caps_heading)
  show ?case
  proof (cases ?A)
    case None
    from A have "heading_at (x # xs) = None" unfolding None by simp
    then show ?thesis
      using None Cons[of "Some x"]
      by (subst ms_lazy_any_then) (simp del: ms.simps)
  next
    case (Some y)
    from A have "map_option (\<lambda>u. (1, u) # cp) (heading_at (x # xs)) = Some (fst y)"
      unfolding Some by simp
    then obtain u where u: "heading_at (x # xs) = Some u" "fst y = (1, u) # cp"
      by (cases "heading_at (x # xs)") auto
    show ?thesis
      using Some u
      by (subst ms_lazy_any_then) (simp del: ms.simps)
  qed
qed

lemma first_heading_tl: "first_heading (x # xs) = None \<Longrightarrow> first_heading xs = None"
  by (simp split: option.splits)

lemma first_heading_drop: "first_heading s = None \<Longrightarrow> first_heading (drop k s) = None"
proof (induction k arbitrary: s)
  case 0
  then show ?case by simp
next
  case (Suc k)
  show ?case
  proof (cases s)
    case Nil
    with Suc.prems show ?thesis by simp
  next
    case (Cons x xs)
    with Suc.prems have "first_heading xs = None" by (simp split: option.splits)
    from Suc.IH[OF this] Cons show ?thesis by simp
  qed
qed

lemma topic_title_Cons:
  "topic_title (x # xs) =
     (if prefix TOPIC_OPEN (x # xs) then first_heading (drop (length TOPIC_OPEN) (x # xs))
      else topic_title xs)"
  by (simp add: topic_title_def split: option.splits)

lemma topic_title_later:
  assumes "topic_title s = Some u"
  shows "\<exists>k. first_heading (drop (length TOPIC_OPEN + k) s) = Some u"
proof -
  from assms obtain a b where f: "find_sub TOPIC_OPEN s = Some (a, b)" "first_heading b = Some u"
    by (auto simp: topic_title_def split: option.splits)
  from find_sub_Some[OF f(1)] have "drop (length TOPIC_OPEN + length a) s = b"
    by (simp add: add.commute)
  with f(2) show ?thesis by blast
qed

lemma topic_title_none_later:
  assumes "first_heading (drop (length TOPIC_OPEN) (x # xs)) = None"
  shows "topic_title xs = None"
proof (cases "topic_title xs")
  case None
  then show ?thesis .
next
  case (Some u)
  from topic_title_later[OF this] obtain k where
    k: "first_heading (drop (length TOPIC_OPEN + k) xs) = Some u" by blast
  have "drop (length TOPIC_OPEN + k) xs = drop (Suc k) (drop (length TOPIC_OPEN) (x # xs))"
    by (simp add: add.commute)
  with first_heading_drop[OF assms, of "Suc k"] k show ?thesis by simp
qed

lemma caps_topic_here:
  "map_option fst (first_of (ms FIRST_TOPIC_RE (cp, p, s)))
     = map_option (\<lambda>u. (1, u) # cp)
         (if prefix TOPIC_OPEN s then first_heading (drop (length TOPIC_OPEN) s) else None)"
proof -
  have n: "asc ''[TOPIC]'' \<noteq> []" by (simp add: asc_def)
  have l: "last (asc ''[TOPIC]'') = 93" "length (asc ''[TOPIC]'') = 7" by (simp_all add: asc_def)
  show ?thesis
    unfolding FIRST_TOPIC_RE_def TOPIC_OPEN_def ms_seq_lit[OF n] l
    using caps_first_heading[of cp "Some 93" "drop 7 s"] by (simp del: ms.simps)
qed

lemma caps_first_topic:
  "map_option (\<lambda>(pre, w, cp, p', post). cp) (search FIRST_TOPIC_RE p s)
     = map_option (\<lambda>u. [(1, u)]) (topic_title s)"
proof (induction s arbitrary: p)
  case Nil
  have "topic_title [] = None" by (simp add: topic_title_def TOPIC_OPEN_def asc_def)
  moreover have "first_of (ms FIRST_TOPIC_RE ([], p, [])) = None"
    using caps_topic_here[of "[]" p "[]"] by (simp add: TOPIC_OPEN_def asc_def del: ms.simps)
  ultimately show ?case by (subst search_first_of) (simp del: ms.simps search.simps)
next
  case (Cons x xs)
  let ?A = "first_of (ms FIRST_TOPIC_RE ([], p, x # xs))"
  let ?F = "if prefix TOPIC_OPEN (x # xs)
            then first_heading (drop (length TOPIC_OPEN) (x # xs)) else None"
  have A: "map_option fst ?A = map_option (\<lambda>u. [(1, u)]) ?F"
    by (rule caps_topic_here)
  show ?case
  proof (cases ?A)
    case None
    from A have F: "?F = None" unfolding None by (simp split: if_splits)
    have t: "topic_title (x # xs) = topic_title xs"
    proof (cases "prefix TOPIC_OPEN (x # xs)")
      case True
      with F have "first_heading (drop (length TOPIC_OPEN) (x # xs)) = None" by simp
      from topic_title_none_later[OF this] this True show ?thesis
        by (simp add: topic_title_Cons)
    next
      case False
      then show ?thesis by (simp add: topic_title_Cons)
    qed
    show ?thesis
      unfolding t using None Cons[of "Some x"]
      by (subst search_first_of) (auto simp del: ms.simps search.simps split: option.splits)
  next
    case (Some y)
    from A have "map_option (\<lambda>u. [(1, u)]) ?F = Some (fst y)" unfolding Some by simp
    then obtain u where u: "?F = Some u" "fst y = [(1, u)]"
      by (cases ?F) auto
    from u(1) have "topic_title (x # xs) = Some u"
      by (simp add: topic_title_Cons split: if_splits)
    moreover obtain c q r where "y = (c, q, r)" by (cases y)
    ultimately show ?thesis
      using Some u(2)
      by (subst search_first_of) (simp del: ms.simps search.simps)
  qed
qed

text \<open>The topic pattern finds the title that \<open>topic_title\<close> describes, on every report.\<close>

lemma first_topic_match:
  "map_option (\<lambda>m. grp_str m 1) (js_match FIRST_TOPIC_RE report) = topic_title report"
proof (cases "search FIRST_TOPIC_RE None report")
  case None
  with caps_first_topic[of None report] show ?thesis by (simp add: js_match_def)
next
  case (Some m)
  obtain pre w cp p' post where m: "m = (pre, w, cp, p', post)" by (cases m)
  from caps_first_topic[of None report] Some m
  obtain u where "topic_title report = Some u" "cp = [(1, u)]"
    by (cases "topic_title report") auto
  with Some m show ?thesis by (simp add: js_match_def grp_str_def)
qed

lemma title_at_nonempty: "title_at s = Some u \<Longrightarrow> u \<noteq> []"
  by (auto simp: title_at_def split: list.splits if_splits)

lemma title_after_nonempty: "title_after s = Some u \<Longrightarrow> u \<noteq> []"
  by (induction s) (auto split: if_splits option.splits dest: title_at_nonempty)

lemma heading_at_nonempty: "heading_at s = Some u \<Longrightarrow> u \<noteq> []"
  by (auto simp: heading_at_def Let_def split: if_splits dest: title_after_nonempty)

lemma first_heading_nonempty: "first_heading s = Some u \<Longrightarrow> u \<noteq> []"
  by (induction s) (auto split: option.splits dest: heading_at_nonempty)

lemma topic_title_nonempty: "topic_title s = Some u \<Longrightarrow> u \<noteq> []"
  by (auto simp: topic_title_def split: option.splits dest: first_heading_nonempty)

lemma summaryOf_no_quote:
  "summaryOf report [] = (case topic_title report of None \<Rightarrow> DEFAULT_SUMMARY | Some u \<Rightarrow> trim u)"
proof (cases "js_match FIRST_TOPIC_RE report")
  case None
  with first_topic_match[of report] show ?thesis by (simp add: summaryOf_def)
next
  case (Some m)
  with first_topic_match[of report] have t: "topic_title report = Some (grp_str m 1)" by simp
  from topic_title_nonempty[OF this] Some t show ?thesis by (simp add: summaryOf_def)
qed

text \<open>The definitions that the simplifier unfolds to find the topic title of a given
  report.\<close>

lemmas title_run = topic_title_def first_heading.simps heading_at_def title_after.simps
  title_at_def title_rest.simps title_end_def is_digit_def js_ws_def js_lt_def TOPIC_OPEN_def
  TOPIC_CLOSE_def asc_def trim_def Let_def

text \<open>
  A report without a gold quote whose only topic, \<open>x\<close>, has no heading, followed by a
  numbered heading outside the topic.
\<close>

definition ex_outside :: jsstring where
  "ex_outside = asc ''[TOPIC]x[/TOPIC]'' @ [10] @ asc ''### 1. Outside'' @ [10]"

lemma goldQuotesOf_ex_outside: "goldQuotesOf ex_outside = []"
proof -
  have "find_tag QUOTE_OPEN QUOTE_CLOSE ex_outside = None"
    by (simp add: QUOTE_OPEN_def ex_outside_def asc_def)
  then have "\<not> has_pair QUOTE_OPEN QUOTE_CLOSE ex_outside"
    using find_tag_None[OF QUOTE_tags_nonempty(1)] by simp
  then show ?thesis by (rule goldQuotesOf_none)
qed

text \<open>
  C9, as stated, fails: the report above has no gold quote and its first topic, the
  block from the first \<open>[TOPIC]\<close> to the first \<open>[/TOPIC]\<close>, is \<open>x\<close> and has no title, but
  the summary is neither a title of that topic nor the fixed string: it is the heading
  that follows the topic.
\<close>

theorem oneSentenceSummary_outside_topic:
  "find_tag TOPIC_OPEN TOPIC_CLOSE ex_outside
     = Some ([], asc ''x'', [10] @ asc ''### 1. Outside'' @ [10])
   \<and> map_option goldQuotes (parseDailyReport (Some ex_outside) []) = Some []
   \<and> map_option oneSentenceSummary (parseDailyReport (Some ex_outside) [])
       = Some (asc ''Outside'')"
proof -
  have 1: "find_tag TOPIC_OPEN TOPIC_CLOSE ex_outside
     = Some ([], asc ''x'', [10] @ asc ''### 1. Outside'' @ [10])"
    by (simp add: ex_outside_def TOPIC_OPEN_def TOPIC_CLOSE_def asc_def)
  have "topic_title ex_outside = Some (asc ''Outside'')"
    by (simp add: ex_outside_def title_run)
  then have "summaryOf ex_outside [] = asc ''Outside''"
    by (simp add: summaryOf_no_quote trim_def js_ws_def asc_def)
  with 1 goldQuotesOf_ex_outside show ?thesis
    by (simp add: parseDailyReport_def Let_def)
qed

text \<open>
  C9, amended. When the entry has a gold quote, its summary is the first quote, the
  separator and the first author, cut to its first 48 units followed by three dots when
  it is longer than 50 units, so that the summary has at most 51 units. When it has
  none, the summary is the trimmed title of the first numbered heading after the first
  \<open>[TOPIC]\<close> tag of the report, inside that topic or not (\<open>topic_title\<close>), and the fixed
  string when there is no such heading.
\<close>

theorem oneSentenceSummary_first_heading:
  "(case parseDailyReport (Some report) path of
      None \<Rightarrow> False
    | Some e \<Rightarrow>
        (\<forall>q qs. goldQuotes e = q # qs \<longrightarrow>
           oneSentenceSummary e =
             (if length (quote q @ QUOTE_SEP @ author q) > 50
              then take 48 (quote q @ QUOTE_SEP @ author q) @ asc ''...''
              else quote q @ QUOTE_SEP @ author q)
           \<and> length (oneSentenceSummary e) \<le> 51)
        \<and> (goldQuotes e = [] \<longrightarrow>
             oneSentenceSummary e =
               (case topic_title report of
                  None \<Rightarrow> DEFAULT_SUMMARY
                | Some title \<Rightarrow> trim title)))"
proof -
  have q: "\<And>q qs. summaryOf report (q # qs) =
             (if length (quote q @ QUOTE_SEP @ author q) > 50
              then take 48 (quote q @ QUOTE_SEP @ author q) @ asc ''...''
              else quote q @ QUOTE_SEP @ author q)"
    by (simp add: summaryOf_def Let_def substring0_def)
  have g: "\<And>s :: jsstring. length (if length s > 50 then take 48 s @ asc ''...'' else s) \<le> 51"
    by (simp add: asc_def)
  have l: "\<And>q qs. length (summaryOf report (q # qs)) \<le> 51"
    unfolding q by (rule g)
  show ?thesis
    using summaryOf_no_quote[of report] q l
    by (auto simp: parseDailyReport_def Let_def simp del: length_append)
qed

text \<open>A report without a gold quote whose first topic has a numbered heading.\<close>

definition ex_topic :: jsstring where
  "ex_topic = asc ''# Daily'' @ [10] @ asc ''[TOPIC]'' @ [10] @ asc ''### 1. Launch plan (20)''
              @ [10] @ asc ''- notes'' @ [10] @ asc ''[/TOPIC]'' @ [10]"

lemma goldQuotesOf_ex_topic: "goldQuotesOf ex_topic = []"
proof -
  have "find_tag QUOTE_OPEN QUOTE_CLOSE ex_topic = None"
    by (simp add: QUOTE_OPEN_def ex_topic_def asc_def)
  then have "\<not> has_pair QUOTE_OPEN QUOTE_CLOSE ex_topic"
    using find_tag_None[OF QUOTE_tags_nonempty(1)] by simp
  then show ?thesis by (rule goldQuotesOf_none)
qed

theorem oneSentenceSummary_first_heading_witness:
  "map_option oneSentenceSummary (parseDailyReport (Some ex_report) [])
     = Some (asc ''abc'' @ QUOTE_SEP @ asc ''Bob'')
   \<and> map_option oneSentenceSummary (parseDailyReport (Some ex_report_long) [])
     = Some (asc ''aaaaaaaaaaaaaaaaaaaaaaaaaaaaaaaaaaaaaaaaaaaaaaaa'' @ asc ''...'')
   \<and> map_option oneSentenceSummary (parseDailyReport (Some ex_topic) [])
     = Some (asc ''Launch plan (20)'')
   \<and> map_option oneSentenceSummary (parseDailyReport (Some (asc ''no quotes'')) [])
     = Some DEFAULT_SUMMARY"
proof -
  have t: "topic_title (asc ''no quotes'') = None"
    by (simp add: title_run)
  have t': "topic_title ex_topic = Some (asc ''Launch plan (20)'')"
    by (simp add: ex_topic_def title_run)
  from oneSentenceSummary_first_heading[of ex_report "[]"]
    goldQuotes_parse[of ex_report "[]"] goldQuotesOf_ex_report
  have 1: "map_option oneSentenceSummary (parseDailyReport (Some ex_report) [])
     = Some (asc ''abc'' @ QUOTE_SEP @ asc ''Bob'')"
    by (auto simp: asc_def QUOTE_SEP_def split: option.splits)
  from oneSentenceSummary_first_heading[of ex_report_long "[]"]
    goldQuotes_parse[of ex_report_long "[]"] goldQuotesOf_ex_report_long
  have 2: "map_option oneSentenceSummary (parseDailyReport (Some ex_report_long) [])
     = Some (asc ''aaaaaaaaaaaaaaaaaaaaaaaaaaaaaaaaaaaaaaaaaaaaaaaa'' @ asc ''...'')"
    by (auto simp: asc_def QUOTE_SEP_def split: option.splits)
  from oneSentenceSummary_first_heading[of ex_topic "[]"]
    goldQuotes_parse[of ex_topic "[]"] goldQuotesOf_ex_topic t'
  have 3: "map_option oneSentenceSummary (parseDailyReport (Some ex_topic) [])
     = Some (asc ''Launch plan (20)'')"
    by (auto simp: asc_def trim_def js_ws_def split: option.splits)
  from oneSentenceSummary_first_heading[of "asc ''no quotes''" "[]"]
    goldQuotes_parse[of "asc ''no quotes''" "[]"] goldQuotesOf_ex_none t
  have 4: "map_option oneSentenceSummary (parseDailyReport (Some (asc ''no quotes'')) [])
     = Some DEFAULT_SUMMARY"
    by (auto split: option.splits)
  from 1 2 3 4 show ?thesis by blast
qed

section \<open>User tiers (generate-ops-report)\<close>

text \<open>The interface \<open>UserProfile\<close>; a \<open>Set\<close> is a set, a \<open>Map\<close> is a map.\<close>

record UserProfile =
  username :: jsstring
  displayName :: jsstring
  totalMessages :: nat
  activeDays :: "jsstring set"
  topics :: "jsstring \<rightharpoonup> nat"
  interactionPartners :: "jsstring \<rightharpoonup> nat"
  peakHours :: "int \<rightharpoonup> nat"
  firstSeen :: jsstring
  lastSeen :: jsstring
  sampleMessages :: "jsstring list"

text \<open>The result of \<open>categorizeUsers\<close>.\<close>

record Categories =
  cocreators :: "jsstring list"
  heavy :: "jsstring list"
  medium :: "jsstring list"
  light :: "jsstring list"
  silent :: "jsstring list"
  churned :: "jsstring list"

text \<open>
  The averages and ratios are quotients of non-negative numbers. In JavaScript a
  quotient by zero is \<open>NaN\<close> (for \<open>0 / 0\<close>) or \<open>Infinity\<close>, and every comparison with
  \<open>NaN\<close> is false. The finite quotients are rationals here: the rounding of the 64-bit
  floating-point division is not modelled.
\<close>

datatype jsnum = Fin rat | PosInf | NaN

fun js_div :: "jsnum \<Rightarrow> jsnum \<Rightarrow> jsnum" where
  "js_div (Fin a) (Fin b) = (if b = 0 then (if a = 0 then NaN else PosInf) else Fin (a / b))"
| "js_div (Fin a) PosInf = Fin 0"
| "js_div PosInf (Fin b) = PosInf"
| "js_div PosInf PosInf = NaN"
| "js_div NaN y = NaN"
| "js_div x NaN = NaN"

fun js_ge :: "jsnum \<Rightarrow> rat \<Rightarrow> bool" where
  "js_ge (Fin a) c = (a \<ge> c)"
| "js_ge PosInf c = True"
| "js_ge NaN c = False"

text \<open>
  The body of the loop over the users, on the result so far. \<open>parseDate\<close> is
  \<open>new Date(user.lastSeen)\<close> as a time value in milliseconds, None for an invalid date
  (whose comparison is false); \<open>now\<close> is the time value of \<open>new Date()\<close>.
\<close>

definition categorizeStep ::
  "(jsstring \<Rightarrow> int option) \<Rightarrow> int \<Rightarrow> jsnum \<Rightarrow> jsnum \<Rightarrow> UserProfile \<Rightarrow> Categories \<Rightarrow> Categories" where
  "categorizeStep parseDate now avgMessages avgDays user result =
     (let sevenDaysAgo = now - 7 * 24 * 60 * 60 * 1000;
          lastSeenDate = parseDate (lastSeen user);
          msgRatio = js_div (Fin (of_nat (totalMessages user))) avgMessages;
          dayRatio = js_div (Fin (of_nat (card (activeDays user)))) avgDays;
          result1 =
            (if js_ge msgRatio 3 \<and> js_ge dayRatio 2
             then result\<lparr>cocreators := cocreators result @ [displayName user]\<rparr>
             else if js_ge msgRatio (3 / 2) \<or> js_ge dayRatio (3 / 2)
             then result\<lparr>heavy := heavy result @ [displayName user]\<rparr>
             else if js_ge msgRatio (1 / 2) \<or> js_ge dayRatio (1 / 2)
             then result\<lparr>medium := medium result @ [displayName user]\<rparr>
             else if totalMessages user > 2
             then result\<lparr>light := light result @ [displayName user]\<rparr>
             else result\<lparr>silent := silent result @ [displayName user]\<rparr>)
      in if totalMessages user \<ge> 5
            \<and> (case lastSeenDate of None \<Rightarrow> False | Some t \<Rightarrow> t < sevenDaysAgo)
         then result1\<lparr>churned := churned result1 @ [displayName user]\<rparr>
         else result1)"

text \<open>
  \<open>categorizeUsers\<close>, on \<open>users = Array.from(profiles.values())\<close>: the profiles in the
  order of the \<open>Map\<close>.
\<close>

definition categorizeUsers ::
  "(jsstring \<Rightarrow> int option) \<Rightarrow> int \<Rightarrow> UserProfile list \<Rightarrow> Categories" where
  "categorizeUsers parseDate now users =
     (let avgMessages = js_div (Fin (of_nat (sum_list (map totalMessages users))))
                          (Fin (of_nat (length users)));
          avgDays = js_div (Fin (of_nat (sum_list (map (\<lambda>u. card (activeDays u)) users))))
                      (Fin (of_nat (length users)))
      in fold (categorizeStep parseDate now avgMessages avgDays) users
           \<lparr>cocreators = [], heavy = [], medium = [], light = [], silent = [], churned = []\<rparr>)"

definition tiers :: "Categories \<Rightarrow> jsstring list" where
  "tiers c = cocreators c @ heavy c @ medium c @ light c @ silent c"

lemma categorizeStep_tiers:
  "mset (tiers (categorizeStep pd now am ad u c)) = mset (tiers c) + {#displayName u#}"
  by (simp add: categorizeStep_def tiers_def Let_def)

lemma categorizeStep_churned:
  "churned (categorizeStep pd now am ad u c) =
     churned c @ (if 5 \<le> totalMessages u \<and> (\<exists>t. pd (lastSeen u) = Some t \<and> t < now - 604800000)
                  then [displayName u] else [])"
  by (auto simp: categorizeStep_def Let_def split: option.splits)

lemma fold_categorize_tiers:
  "mset (tiers (fold (categorizeStep pd now am ad) users c))
     = mset (tiers c) + mset (map displayName users)"
  by (induction users arbitrary: c) (simp_all add: categorizeStep_tiers)

lemma fold_categorize_churned:
  "churned (fold (categorizeStep pd now am ad) users c) =
     churned c @ map displayName
       (filter (\<lambda>u. 5 \<le> totalMessages u \<and> (\<exists>t. pd (lastSeen u) = Some t \<and> t < now - 604800000))
          users)"
  by (induction users arbitrary: c) (simp_all add: categorizeStep_churned)

text \<open>Profiles for the examples: a user with a name, a display name, a number of messages
  and a last-seen time, active on one day.\<close>

definition ex_user :: "jsstring \<Rightarrow> jsstring \<Rightarrow> nat \<Rightarrow> jsstring \<Rightarrow> UserProfile" where
  "ex_user u d k t =
     \<lparr>username = u, displayName = d, totalMessages = k, activeDays = {asc ''2026-01-01''},
      topics = Map.empty, interactionPartners = Map.empty, peakHours = Map.empty,
      firstSeen = t, lastSeen = t, sampleMessages = []\<rparr>"

text \<open>A date parser for the examples: it knows 2026-01-01 00:00:00 UTC only.\<close>

definition ex_parse :: "jsstring \<Rightarrow> int option" where
  "ex_parse s = (if s = asc ''2026-01-01 00:00:00'' then Some 1767225600000 else None)"

text \<open>
  C10, as stated, fails: two users whose sender could not be resolved both have the
  display name \<open>GROUP_MEMBER\<close>; one is a heavy user and one a medium user, so the
  lists \<open>heavy\<close> and \<open>medium\<close> share a name.
\<close>

theorem categorizeUsers_shared_name:
  "heavy (categorizeUsers ex_parse 1768521600000
            [ex_user (asc ''wxid_a'') GROUP_MEMBER 10 (asc ''2026-01-01 00:00:00''),
             ex_user (asc ''wxid_b'') GROUP_MEMBER 1 (asc ''2026-01-01 00:00:00'')])
     = [GROUP_MEMBER]
   \<and> medium (categorizeUsers ex_parse 1768521600000
            [ex_user (asc ''wxid_a'') GROUP_MEMBER 10 (asc ''2026-01-01 00:00:00''),
             ex_user (asc ''wxid_b'') GROUP_MEMBER 1 (asc ''2026-01-01 00:00:00'')])
     = [GROUP_MEMBER]"
  by (simp add: categorizeUsers_def categorizeStep_def ex_user_def Let_def)

text \<open>
  C10, amended. \<open>categorizeUsers\<close> adds the display name of each user to exactly one of
  the five lists \<open>cocreators\<close>, \<open>heavy\<close>, \<open>medium\<close>, \<open>light\<close>, \<open>silent\<close>: together the
  five lists hold the display names of the users, each as often as users bear it. When
  the display names of the users are distinct the five lists are pairwise disjoint and
  without repetition. The list \<open>churned\<close> is independent of them: it holds, in order, the
  display names of the users with at least 5 messages whose last-seen time is more than
  seven days before the current time.
\<close>

theorem categorizeUsers_partition:
  "(let c = categorizeUsers parseDate now users
    in mset (cocreators c @ heavy c @ medium c @ light c @ silent c)
         = mset (map displayName users)
     \<and> (distinct (map displayName users)
          \<longrightarrow> distinct (cocreators c @ heavy c @ medium c @ light c @ silent c))
     \<and> churned c =
         map displayName
           (filter (\<lambda>u. 5 \<le> totalMessages u
                         \<and> (\<exists>t. parseDate (lastSeen u) = Some t \<and> t < now - 7 * 24 * 60 * 60 * 1000))
              users))"
proof -
  let ?c = "categorizeUsers parseDate now users"
  have m: "mset (tiers ?c) = mset (map displayName users)"
    unfolding categorizeUsers_def Let_def fold_categorize_tiers by (simp add: tiers_def)
  have d: "distinct (tiers ?c)" if "distinct (map displayName users)"
    using that m by (metis mset_eq_imp_distinct_iff)
  have c: "churned ?c =
         map displayName
           (filter (\<lambda>u. 5 \<le> totalMessages u
                         \<and> (\<exists>t. parseDate (lastSeen u) = Some t \<and> t < now - 7 * 24 * 60 * 60 * 1000))
              users)"
    unfolding categorizeUsers_def Let_def fold_categorize_churned by simp
  from m d c show ?thesis unfolding Let_def tiers_def by blast
qed

theorem categorizeUsers_partition_witness:
  "distinct
     (cocreators (categorizeUsers ex_parse 1768521600000
        [ex_user (asc ''wxid_a'') (asc ''alice'') 10 (asc ''2026-01-01 00:00:00''),
         ex_user (asc ''wxid_b'') (asc ''bob'') 1 (asc ''2026-01-15 00:00:00'')])
      @ heavy (categorizeUsers ex_parse 1768521600000
        [ex_user (asc ''wxid_a'') (asc ''alice'') 10 (asc ''2026-01-01 00:00:00''),
         ex_user (asc ''wxid_b'') (asc ''bob'') 1 (asc ''2026-01-15 00:00:00'')])
      @ medium (categorizeUsers ex_parse 1768521600000
        [ex_user (asc ''wxid_a'') (asc ''alice'') 10 (asc ''2026-01-01 00:00:00''),
         ex_user (asc ''wxid_b'') (asc ''bob'') 1 (asc ''2026-01-15 00:00:00'')])
      @ light (categorizeUsers ex_parse 1768521600000
        [ex_user (asc ''wxid_a'') (asc ''alice'') 10 (asc ''2026-01-01 00:00:00''),
         ex_user (asc ''wxid_b'') (asc ''bob'') 1 (asc ''2026-01-15 00:00:00'')])
      @ silent (categorizeUsers ex_parse 1768521600000
        [ex_user (asc ''wxid_a'') (asc ''alice'') 10 (asc ''2026-01-01 00:00:00''),
         ex_user (asc ''wxid_b'') (asc ''bob'') 1 (asc ''2026-01-15 00:00:00'')]))
   \<and> churned (categorizeUsers ex_parse 1768521600000
        [ex_user (asc ''wxid_a'') (asc ''alice'') 10 (asc ''2026-01-01 00:00:00''),
         ex_user (asc ''wxid_b'') (asc ''bob'') 1 (asc ''2026-01-15 00:00:00'')])
       = [asc ''alice'']"
proof -
  have 1: "distinct (map displayName
        [ex_user (asc ''wxid_a'') (asc ''alice'') 10 (asc ''2026-01-01 00:00:00''),
         ex_user (asc ''wxid_b'') (asc ''bob'') 1 (asc ''2026-01-15 00:00:00'')])"
    by (simp add: ex_user_def asc_def)
  have 2: "(\<exists>t. ex_parse (asc ''2026-01-01 00:00:00'') = Some t \<and> t < 1768521600000 - 7 * 24 * 60 * 60 * 1000)"
    by (simp add: ex_parse_def)
  have 3: "ex_parse (asc ''2026-01-15 00:00:00'') = None"
    by (simp add: ex_parse_def asc_def)
  from categorizeUsers_partition[of ex_parse 1768521600000
      "[ex_user (asc ''wxid_a'') (asc ''alice'') 10 (asc ''2026-01-01 00:00:00''),
        ex_user (asc ''wxid_b'') (asc ''bob'') 1 (asc ''2026-01-15 00:00:00'')]"] 1 2 3
  show ?thesis by (simp add: Let_def ex_user_def)
qed

end
